(* ===== verification/Prelude.thy ===== *)
theory Prelude
  imports Main
begin

text \<open>
  The Go fragment every other theory is written in. A Go function that has effects becomes a
  state transformer whose outcome says how it ended: it returned a value, it returned a non-nil
  \<open>error\<close>, or it unwound the stack (a \<open>panic\<close>, or \<open>runtime.Goexit\<close>).
  The idiom \<open>v, err := f(); if err != nil { return ... }\<close> is \<open>handleE f onErr onOk\<close>,
  and \<open>defer\<close> is \<open>deferE\<close>. Trace specifications (\<open>emits\<close>) are stated over an
  arbitrary function that reads a log off the state; the rules here are shared by all components.
\<close>

section \<open>Errors and outcomes\<close>

text \<open>
  A value of the Go interface type \<open>error\<close>. The program looks at an error in two ways
  only: it prints it through its \<open>Error\<close> method, and it compares the error of a context with
  \<open>context.DeadlineExceeded\<close>. Every error made by \<open>fmt.Errorf\<close> or
  \<open>errors.New\<close>, and every error a library hands over, is an \<open>ErrorString\<close>.
\<close>

datatype go_error =
    ErrorString string
  | OperationTimeout go_error string
  | DeadlineExceeded
  | Canceled

fun Error :: "go_error \<Rightarrow> string" where
  "Error (ErrorString m) = m"
| "Error (OperationTimeout err operationType) = operationType @ '' operation timeout: '' @ Error err"
| "Error DeadlineExceeded = ''context deadline exceeded''"
| "Error Canceled = ''context canceled''"

text \<open>
  The ways a call does not come back to its caller: a panic, the end of the goroutine, and, kept as a
  value so that every definition is total, a loop that never ends. Deferred calls run in the first two
  cases only.
\<close>

datatype go_panic = PanicMessage string | NilDereference | Goexit string | Diverges

datatype 'a outcome = Ok 'a | Err go_error | Panic go_panic

lemma outcome_absurd [elim]: "\<forall>v. x \<noteq> Ok v \<Longrightarrow> \<forall>e. x \<noteq> Err e \<Longrightarrow> \<forall>p. x \<noteq> Panic p \<Longrightarrow> P"
  by (cases x) simp_all

definition is_ok :: "'a outcome \<Rightarrow> bool" where
  "is_ok r \<longleftrightarrow> (case r of Ok _ \<Rightarrow> True | _ \<Rightarrow> False)"

lemma is_ok_simps [simp]: "is_ok (Ok v)" "\<not> is_ok (Err e)" "\<not> is_ok (Panic p)"
  by (simp_all add: is_ok_def)

lemma is_ok_iff: "is_ok r \<longleftrightarrow> (\<exists>v. r = Ok v)"
  by (cases r) auto

section \<open>State transformers\<close>

type_synonym ('s, 'a) go = "'s \<Rightarrow> 'a outcome \<times> 's"

definition returnE :: "'a \<Rightarrow> ('s, 'a) go" where
  "returnE v = (\<lambda>s. (Ok v, s))"

definition throwE :: "go_error \<Rightarrow> ('s, 'a) go" where
  "throwE e = (\<lambda>s. (Err e, s))"

definition panicE :: "go_panic \<Rightarrow> ('s, 'a) go" where
  "panicE p = (\<lambda>s. (Panic p, s))"

definition handleE :: "('s, 'a) go \<Rightarrow> (go_error \<Rightarrow> ('s, 'b) go) \<Rightarrow> ('a \<Rightarrow> ('s, 'b) go) \<Rightarrow> ('s, 'b) go" where
  "handleE m onErr onOk = (\<lambda>s. case m s of (r, s') \<Rightarrow>
     (case r of Ok v \<Rightarrow> onOk v s' | Err e \<Rightarrow> onErr e s' | Panic p \<Rightarrow> (Panic p, s')))"

definition bindE :: "('s, 'a) go \<Rightarrow> ('a \<Rightarrow> ('s, 'b) go) \<Rightarrow> ('s, 'b) go" where
  "bindE m k = handleE m throwE k"

definition seqE :: "('s, 'a) go \<Rightarrow> ('s, 'b) go \<Rightarrow> ('s, 'b) go" where
  "seqE m k = handleE m throwE (\<lambda>_. k)"

text \<open>\<open>defer c()\<close>: \<open>c\<close> runs however \<open>m\<close> ends, and its own result is dropped.\<close>

definition deferE :: "('s, 'a) go \<Rightarrow> ('s, unit) go \<Rightarrow> ('s, 'a) go" where
  "deferE m c = (\<lambda>s. case m s of (r, s') \<Rightarrow>
     (if r = Panic Diverges then (r, s')
      else case c s' of (Panic p, s'') \<Rightarrow> (Panic p, s'') | (_, s'') \<Rightarrow> (r, s'')))"

text \<open>A \<open>for range\<close> loop with an accumulator, left at the first error.\<close>

fun foldE :: "('b \<Rightarrow> 'a \<Rightarrow> ('s, 'b) go) \<Rightarrow> 'b \<Rightarrow> 'a list \<Rightarrow> ('s, 'b) go" where
  "foldE f b [] = returnE b"
| "foldE f b (x # xs) = handleE (f b x) throwE (\<lambda>b'. foldE f b' xs)"

named_theorems idle_run "runs of operations on the machine where everything succeeds"

lemmas go_defs = returnE_def throwE_def panicE_def handleE_def bindE_def seqE_def deferE_def

lemma handleE_Ok: "m s = (Ok v, s') \<Longrightarrow> handleE m h k s = k v s'"
  and handleE_Err: "m s = (Err e, s') \<Longrightarrow> handleE m h k s = h e s'"
  and handleE_Panic: "m s = (Panic p, s') \<Longrightarrow> handleE m h k s = (Panic p, s')"
  by (simp_all add: handleE_def)

lemma handleE_assoc_return [simp]: "handleE (returnE v) h k = k v"
  and handleE_throw [simp]: "handleE (throwE e) h k = h e"
  and handleE_panic [simp]: "handleE (panicE p) h k = panicE p"
  and seqE_return [simp]: "seqE (returnE v) m = m"
  and bindE_return [simp]: "bindE (returnE v) k = k v"
  by (simp_all add: go_defs fun_eq_iff)

lemma returnE_apply [simp]: "returnE v s = (Ok v, s)"
  and throwE_apply [simp]: "throwE e s = (Err e, s)"
  and panicE_apply [simp]: "panicE p s = (Panic p, s)"
  by (simp_all add: go_defs)

section \<open>Trace specifications\<close>

text \<open>
  \<open>emits obs m S\<close>: from every state \<open>m\<close> only appends to the log that \<open>obs\<close>
  reads, and the entries it appends, together with its outcome, satisfy \<open>S\<close>. The rules below
  compose specifications along the structure of a program.
\<close>


definition emits :: "('s \<Rightarrow> 'e list) \<Rightarrow> ('s, 'a) go \<Rightarrow> ('e list \<Rightarrow> 'a outcome \<Rightarrow> bool) \<Rightarrow> bool" where
  "emits obs m S \<longleftrightarrow> (\<forall>s. \<exists>evs. obs (snd (m s)) = obs s @ evs \<and> S evs (fst (m s)))"

lemma emitsI:
  assumes "\<And>s. \<exists>evs. obs (snd (m s)) = obs s @ evs \<and> S evs (fst (m s))"
  shows "emits obs m S"
  using assms by (simp add: emits_def)

lemma emitsE:
  assumes "emits obs m S" and "m s = (r, s')"
  obtains evs where "obs s' = obs s @ evs" and "S evs r"
  using assms by (metis emits_def fst_conv snd_conv)

lemma emits_weaken:
  assumes "emits obs m S" and "\<And>evs r. S evs r \<Longrightarrow> S' evs r"
  shows "emits obs m S'"
  using assms by (metis emits_def)

lemma emits_conj:
  assumes "emits obs m S" and "emits obs m S'"
  shows "emits obs m (\<lambda>evs r. S evs r \<and> S' evs r)"
proof (rule emitsI)
  fix s
  obtain r s' where m: "m s = (r, s')" by (cases "m s")
  from assms(1) m obtain e1 where "obs s' = obs s @ e1" "S e1 r" by (rule emitsE)
  moreover from assms(2) m obtain e2 where "obs s' = obs s @ e2" "S' e2 r" by (rule emitsE)
  ultimately show "\<exists>evs. obs (snd (m s)) = obs s @ evs \<and> S evs (fst (m s)) \<and> S' evs (fst (m s))"
    using m by auto
qed

lemma emits_return: "S [] (Ok v) \<Longrightarrow> emits obs (returnE v) S"
  and emits_throw: "S [] (Err e) \<Longrightarrow> emits obs (throwE e) S"
  and emits_panic: "S [] (Panic p) \<Longrightarrow> emits obs (panicE p) S"
  by (simp_all add: emits_def)

lemma emits_handle:
  assumes m: "emits obs m S1"
    and ok: "\<And>v evs0. S1 evs0 (Ok v) \<Longrightarrow> emits obs (k v) (\<lambda>evs r. S (evs0 @ evs) r)"
    and err: "\<And>e evs0. S1 evs0 (Err e) \<Longrightarrow> emits obs (h e) (\<lambda>evs r. S (evs0 @ evs) r)"
    and panic: "\<And>evs p. S1 evs (Panic p) \<Longrightarrow> S evs (Panic p)"
  shows "emits obs (handleE m h k) S"
proof (rule emitsI)
  fix s
  obtain r s1 where ms: "m s = (r, s1)" by (cases "m s")
  from m ms obtain evs0 where e0: "obs s1 = obs s @ evs0" "S1 evs0 r" by (rule emitsE)
  show "\<exists>evs. obs (snd (handleE m h k s)) = obs s @ evs \<and> S evs (fst (handleE m h k s))"
  proof (cases r)
    case (Ok v)
    obtain r2 s2 where k: "k v s1 = (r2, s2)" by (cases "k v s1")
    from emitsE [OF ok k] e0 Ok obtain evs where "obs s2 = obs s1 @ evs" "S (evs0 @ evs) r2"
      by metis
    with e0 Ok ms k show ?thesis by (auto simp: handleE_def)
  next
    case (Err e)
    obtain r2 s2 where h: "h e s1 = (r2, s2)" by (cases "h e s1")
    from emitsE [OF err h] e0 Err obtain evs where "obs s2 = obs s1 @ evs" "S (evs0 @ evs) r2"
      by metis
    with e0 Err ms h show ?thesis by (auto simp: handleE_def)
  next
    case (Panic p)
    with e0 ms panic show ?thesis by (auto simp: handleE_def)
  qed
qed

text \<open>\<open>conv h f\<close> is what \<open>x, err := m; if err != nil { return h(err) }; return f(x)\<close> makes of an outcome.\<close>

definition conv :: "(go_error \<Rightarrow> go_error) \<Rightarrow> ('a \<Rightarrow> 'b) \<Rightarrow> 'a outcome \<Rightarrow> 'b outcome" where
  "conv h f x = (case x of Ok v \<Rightarrow> Ok (f v) | Err e \<Rightarrow> Err (h e) | Panic p \<Rightarrow> Panic p)"

lemma conv_simps [simp]: "conv h f (Ok v) = Ok (f v)" "conv h f (Err e) = Err (h e)" "conv h f (Panic p) = Panic p"
  by (simp_all add: conv_def)

lemma conv_eq_Ok: "conv h f x = Ok b \<longleftrightarrow> (\<exists>v. x = Ok v \<and> b = f v)"
  by (cases x) auto

lemma conv_eq_Err: "conv h f x = Err e \<longleftrightarrow> (\<exists>e'. x = Err e' \<and> e = h e')"
  and conv_eq_Panic: "conv h f x = Panic p \<longleftrightarrow> x = Panic p"
  by (cases x; auto)+

lemmas conv_eqs = conv_eq_Ok conv_eq_Err conv_eq_Panic
  conv_eq_Ok [THEN eq_iff_swap] conv_eq_Err [THEN eq_iff_swap] conv_eq_Panic [THEN eq_iff_swap]

lemma emits_conv:
  assumes "emits obs m S"
  shows "emits obs (handleE m (\<lambda>e. throwE (h e)) (\<lambda>v. returnE (f v))) (\<lambda>evs r. \<exists>x. S evs x \<and> r = conv h f x)"
proof (rule emits_handle [OF assms])
  show "emits obs (returnE (f v)) (\<lambda>evs r. \<exists>x. S (evs0 @ evs) x \<and> r = conv h f x)" if "S evs0 (Ok v)" for v evs0
    using that by (intro emits_return exI [of _ "Ok v"]) simp
  show "emits obs (throwE (h e)) (\<lambda>evs r. \<exists>x. S (evs0 @ evs) x \<and> r = conv h f x)" if "S evs0 (Err e)" for e evs0
    using that by (intro emits_throw exI [of _ "Err e"]) simp
  show "\<exists>x. S evs x \<and> Panic p = conv h f x" if "S evs (Panic p)" for evs p
    using that by (intro exI [of _ "Panic p"]) simp
qed

definition silent :: "('s \<Rightarrow> 'e list) \<Rightarrow> ('s, 'a) go \<Rightarrow> bool" where
  "silent obs m \<longleftrightarrow> (\<forall>s. obs (snd (m s)) = obs s)"

lemma silentI: "(\<And>s. obs (snd (m s)) = obs s) \<Longrightarrow> silent obs m"
  by (simp add: silent_def)

lemma silentD: "silent obs m \<Longrightarrow> m s = (r, s') \<Longrightarrow> obs s' = obs s"
  by (metis silent_def snd_conv)

lemma silent_emits: "silent obs m \<longleftrightarrow> emits obs m (\<lambda>evs r. evs = [])"
  by (auto simp: silent_def emits_def)

lemma silent_return [simp, intro]: "silent obs (returnE v)"
  and silent_throw [simp, intro]: "silent obs (throwE e)"
  and silent_panic [simp, intro]: "silent obs (panicE p)"
  by (simp_all add: silent_def)

lemma silent_handle [intro]:
  assumes "silent obs m" and "\<And>v. silent obs (k v)" and "\<And>e. silent obs (h e)"
  shows "silent obs (handleE m h k)"
  using assms by (simp add: silent_def handleE_def split: prod.split outcome.split) (metis snd_conv)

lemma silent_seq [intro]: "silent obs m \<Longrightarrow> silent obs k \<Longrightarrow> silent obs (seqE m k)"
  unfolding seqE_def by (rule silent_handle) auto

lemma silent_defer [intro]:
  assumes "silent obs m" and "silent obs c"
  shows "silent obs (deferE m c)"
proof (rule silentI)
  fix s
  obtain r1 s1 where m: "m s = (r1, s1)" by (cases "m s")
  obtain r2 s2 where c: "c s1 = (r2, s2)" by (cases "c s1")
  from silentD [OF assms(1) m] silentD [OF assms(2) c] m c
  show "obs (snd (deferE m c s)) = obs s" by (cases r2) (simp_all add: deferE_def)
qed

text \<open>A silent step in front of a program changes nothing in the program's specification.\<close>

lemma emits_seq_silent:
  assumes "silent obs m" and "\<And>s. is_ok (fst (m s))" and "emits obs k S"
  shows "emits obs (seqE m k) S"
proof (rule emitsI)
  fix s
  obtain r1 s1 where m: "m s = (r1, s1)" by (cases "m s")
  from assms(2) [of s] m obtain v where r1: "r1 = Ok v" by (auto simp: is_ok_iff)
  obtain r2 s2 where k: "k s1 = (r2, s2)" by (cases "k s1")
  from assms(3) k obtain evs where "obs s2 = obs s1 @ evs" "S evs r2" by (rule emitsE)
  with silentD [OF assms(1) m] m r1 k
  show "\<exists>evs. obs (snd (seqE m k s)) = obs s @ evs \<and> S evs (fst (seqE m k s))"
    by (auto simp: seqE_def handleE_def)
qed

section \<open>Programs that do not panic\<close>

definition returns :: "('s, 'a) go \<Rightarrow> bool" where
  "returns m \<longleftrightarrow> (\<forall>s p. fst (m s) \<noteq> Panic p)"

named_theorems returns_intros "programs that end by returning a value or an error"

lemma returnsD: "returns m \<Longrightarrow> m s = (r, s') \<Longrightarrow> r \<noteq> Panic p"
  by (metis returns_def fst_conv)

lemma returns_basic [returns_intros, simp]: "returns (returnE v)" "returns (throwE e)"
  by (simp_all add: returns_def)

lemma returns_handle [returns_intros]:
  assumes "returns m" and "\<And>e. returns (h e)" and "\<And>v. returns (k v)"
  shows "returns (handleE m h k)"
  unfolding returns_def
proof (intro allI)
  fix s p
  obtain r s' where "m s = (r, s')" by (cases "m s")
  with assms show "fst (handleE m h k s) \<noteq> Panic p"
    by (cases r) (auto simp: handleE_def returns_def dest: returnsD [OF assms(1)])
qed

text \<open>The same from one state, for a first part that may panic for a reason of its own.\<close>

lemma panics_handle_at:
  assumes "fst (handleE m h k s) = Panic p" and "\<And>e. returns (h e)" and "\<And>v. returns (k v)"
  shows "fst (m s) = Panic p"
proof -
  obtain r s' where "m s = (r, s')" by (cases "m s")
  with assms show ?thesis by (cases r) (auto simp: handleE_def returns_def)
qed

lemma returns_bind [returns_intros]: "returns m \<Longrightarrow> (\<And>v. returns (k v)) \<Longrightarrow> returns (bindE m k)"
  and returns_seq [returns_intros]: "returns m \<Longrightarrow> returns k' \<Longrightarrow> returns (seqE m k')"
  unfolding bindE_def seqE_def by (auto intro: returns_intros)

lemma returns_foldE [returns_intros]: "(\<And>b x. x \<in> set xs \<Longrightarrow> returns (f b x)) \<Longrightarrow> returns (foldE f b xs)"
  by (induction xs arbitrary: b) (auto intro!: returns_intros simp only: foldE.simps list.set insert_iff)

lemma returns_defer [returns_intros]: "returns m \<Longrightarrow> returns c \<Longrightarrow> returns (deferE m c)"
  unfolding returns_def deferE_def
  by (auto split: prod.split outcome.split) (metis fst_conv)+

lemma emits_returns: "emits obs m S \<Longrightarrow> returns m \<Longrightarrow> emits obs m (\<lambda>evs r. S evs r \<and> (\<forall>p. r \<noteq> Panic p))"
  by (fastforce simp: emits_def returns_def)

section \<open>Loops\<close>

text \<open>
  A loop: \<open>I b evs\<close> describes the entries of the iterations finished so far with
  accumulator \<open>b\<close>, \<open>X evs r\<close> those of a loop left early.
\<close>

definition loop_spec :: "('b \<Rightarrow> 'e list \<Rightarrow> bool) \<Rightarrow> ('e list \<Rightarrow> 'b outcome \<Rightarrow> bool) \<Rightarrow> 'e list \<Rightarrow> 'b outcome \<Rightarrow> bool" where
  "loop_spec I X evs r \<longleftrightarrow> (case r of Ok b \<Rightarrow> I b evs | _ \<Rightarrow> X evs r)"

lemma loop_spec_simps [simp]:
  "loop_spec I X evs (Ok b) = I b evs"
  "loop_spec I X evs (Err e) = X evs (Err e)"
  "loop_spec I X evs (Panic p) = X evs (Panic p)"
  by (simp_all add: loop_spec_def)

lemma emits_foldE:
  assumes "\<And>b x evs0. x \<in> set xs \<Longrightarrow> I b evs0 \<Longrightarrow> emits obs (f b x) (\<lambda>evs. loop_spec I X (evs0 @ evs))"
    and "I b evs0"
  shows "emits obs (foldE f b xs) (\<lambda>evs. loop_spec I X (evs0 @ evs))"
  using assms
proof (induction xs arbitrary: b evs0)
  case Nil
  then show ?case unfolding foldE.simps by (intro emits_return) simp
next
  case (Cons x xs)
  have "emits obs (f b x) (\<lambda>evs. loop_spec I X (evs0 @ evs))"
    using Cons.prems by simp
  then show ?case
    unfolding foldE.simps
  proof (rule emits_handle)
    fix b' evs1
    assume "loop_spec I X (evs0 @ evs1) (Ok b')"
    with Cons.IH [of b' "evs0 @ evs1"] Cons.prems(1)
    show "emits obs (foldE f b' xs) (\<lambda>evs. loop_spec I X (evs0 @ evs1 @ evs))" by simp
  qed (auto intro: emits_throw)
qed

section \<open>Success and failure\<close>

text \<open>
  The usual shape of a specification: \<open>good v evs\<close> for a run that returned \<open>v\<close> and
  \<open>bad evs\<close> for one that did not. An error passed on to the caller, wrapped or not, keeps it.
\<close>

definition good_or_bad :: "('a \<Rightarrow> 'e list \<Rightarrow> bool) \<Rightarrow> ('e list \<Rightarrow> bool) \<Rightarrow> 'e list \<Rightarrow> 'a outcome \<Rightarrow> bool" where
  "good_or_bad good bad evs r \<longleftrightarrow> (case r of Ok v \<Rightarrow> good v evs | _ \<Rightarrow> bad evs)"

lemma good_or_bad_simps [simp]:
  "good_or_bad good bad evs (Ok v) = good v evs"
  "good_or_bad good bad evs (Err e) = bad evs"
  "good_or_bad good bad evs (Panic p) = bad evs"
  by (simp_all add: good_or_bad_def)

lemma emits_then:
  assumes "emits obs m (good_or_bad good1 bad1)"
    and "\<And>v evs0. good1 v evs0 \<Longrightarrow> emits obs (k v) (\<lambda>evs. good_or_bad good bad (evs0 @ evs))"
    and "\<And>evs. bad1 evs \<Longrightarrow> bad evs"
  shows "emits obs (handleE m (\<lambda>e. throwE (h e)) k) (good_or_bad good bad)"
proof (rule emits_handle [OF assms(1)])
  fix v evs0
  assume "good_or_bad good1 bad1 evs0 (Ok v)"
  with assms(2) show "emits obs (k v) (\<lambda>evs. good_or_bad good bad (evs0 @ evs))" by simp
qed (use assms(3) in \<open>auto intro: emits_throw\<close>)

text \<open>The same behind entries that were appended before.\<close>

lemma emits_then_after:
  assumes "emits obs m (good_or_bad good1 bad1)"
    and "\<And>v evs1. good1 v evs1 \<Longrightarrow> emits obs (k v) (\<lambda>evs. good_or_bad good bad (evs0 @ evs1 @ evs))"
    and "\<And>evs. bad1 evs \<Longrightarrow> bad (evs0 @ evs)"
  shows "emits obs (handleE m (\<lambda>e. throwE (h e)) k) (\<lambda>evs. good_or_bad good bad (evs0 @ evs))"
proof -
  have shift: "(\<lambda>evs. good_or_bad good bad (evs0 @ evs)) =
      good_or_bad (\<lambda>v evs. good v (evs0 @ evs)) (\<lambda>evs. bad (evs0 @ evs))"
    by (simp add: good_or_bad_def fun_eq_iff split: outcome.split)
  have shift': "(\<lambda>evs. good_or_bad good bad (evs0 @ evs1 @ evs)) =
      (\<lambda>evs. good_or_bad (\<lambda>v evs. good v (evs0 @ evs)) (\<lambda>evs. bad (evs0 @ evs)) (evs1 @ evs))" for evs1
    by (simp add: good_or_bad_def fun_eq_iff split: outcome.split)
  show ?thesis
    unfolding shift by (rule emits_then [OF assms(1)]) (use assms(2,3) shift' in auto)
qed

lemma emits_seq_then:
  assumes "emits obs m (good_or_bad good1 bad1)"
    and "\<And>v evs1. good1 v evs1 \<Longrightarrow> emits obs k (\<lambda>evs. good_or_bad good bad (evs0 @ evs1 @ evs))"
    and "\<And>evs. bad1 evs \<Longrightarrow> bad (evs0 @ evs)"
  shows "emits obs (seqE m k) (\<lambda>evs. good_or_bad good bad (evs0 @ evs))"
  using emits_then_after [where h = "\<lambda>e. e" and k = "\<lambda>_. k", OF assms] by (simp add: seqE_def)

text \<open>The same two rules with the entries so far on the left, so that they chain.\<close>

lemma emits_then_next:
  assumes "emits obs m (good_or_bad good1 bad1)"
    and "\<And>v evs1. good1 v evs1 \<Longrightarrow> emits obs (k v) (\<lambda>evs. good_or_bad good bad ((evs0 @ evs1) @ evs))"
    and "\<And>evs. bad1 evs \<Longrightarrow> bad (evs0 @ evs)"
  shows "emits obs (handleE m (\<lambda>e. throwE (h e)) k) (\<lambda>evs. good_or_bad good bad (evs0 @ evs))"
  using emits_then_after [OF assms(1), of k good bad evs0 h] assms(2,3) by simp

lemma emits_seq_next:
  assumes "emits obs m (good_or_bad good1 bad1)"
    and "\<And>v evs1. good1 v evs1 \<Longrightarrow> emits obs k (\<lambda>evs. good_or_bad good bad ((evs0 @ evs1) @ evs))"
    and "\<And>evs. bad1 evs \<Longrightarrow> bad (evs0 @ evs)"
  shows "emits obs (seqE m k) (\<lambda>evs. good_or_bad good bad (evs0 @ evs))"
  using emits_seq_then [OF assms(1), of k good bad evs0] assms(2,3) by simp

lemma emits_good_or_bad:
  assumes "emits obs m S" and "\<And>v evs. S evs (Ok v) \<Longrightarrow> good v evs"
    and "\<And>e evs. S evs (Err e) \<Longrightarrow> bad evs" and "\<And>p evs. S evs (Panic p) \<Longrightarrow> bad evs"
  shows "emits obs m (good_or_bad good bad)"
  by (rule emits_weaken [OF assms(1)]) (use assms(2-) in \<open>auto simp: good_or_bad_def split: outcome.split\<close>)

section \<open>Scripts\<close>

text \<open>
  \<open>script cs evs r\<close>: the steps \<open>cs\<close>, each an entry that waits for its outcome, were
  tried in order up to the first that failed, whose error is the result.
\<close>

inductive script :: "('x outcome \<Rightarrow> 'e) list \<Rightarrow> 'e list \<Rightarrow> unit outcome \<Rightarrow> bool" where
  finished: "script [] [] (Ok ())"
| failed: "script (c # cs) [c (Err e)] (Err e)"
| step: "script cs evs r \<Longrightarrow> script (c # cs) (c (Ok out) # evs) r"

inductive_cases script_NilE: "script [] evs r"
inductive_cases script_ConsE: "script (c # cs) evs r"
inductive_simps script_simps: "script [] evs r" "script (c # cs) evs r"

lemma script_append:
  "script cs evs (Ok ()) \<Longrightarrow> script cs' evs' r \<Longrightarrow> script (cs @ cs') (evs @ evs') r"
  by (induction cs evs "Ok () :: unit outcome" rule: script.induct) (auto intro: script.intros)

lemma script_Err: "script cs evs (Err e) \<Longrightarrow> script (cs @ cs') evs (Err e)"
  by (induction cs evs "Err e :: unit outcome" rule: script.induct) (auto intro: script.intros)

lemma script_no_panic: "\<not> script cs evs (Panic p)"
proof
  assume "script cs evs (Panic p)"
  then show False by (induction cs evs "Panic p :: unit outcome" rule: script.induct)
qed

lemma script_all: "script cs evs (Ok ()) \<Longrightarrow> \<exists>outs. length outs = length cs \<and> evs = map2 (\<lambda>c out. c (Ok out)) cs outs"
proof (induction cs evs "Ok () :: unit outcome" rule: script.induct)
  case (step cs evs c out)
  then obtain outs where "length outs = length cs" "evs = map2 (\<lambda>c out. c (Ok out)) cs outs" by blast
  then show ?case by (intro exI [of _ "out # outs"]) simp
qed simp

text \<open>Every entry of a script is one of its steps.\<close>

lemma script_entries: "script cs evs r \<Longrightarrow> ev \<in> set evs \<Longrightarrow> \<exists>c \<in> set cs. \<exists>x. ev = c x"
  by (induction cs evs r rule: script.induct) auto

lemma script_seq:
  assumes "emits obs m (script cs)" and "emits obs k (script cs')"
  shows "emits obs (seqE m k) (script (cs @ cs'))"
  unfolding seqE_def
proof (rule emits_handle [OF assms(1)])
  show "emits obs k (\<lambda>evs. script (cs @ cs') (evs0 @ evs))" if "script cs evs0 (Ok v)" for v :: unit and evs0
    using that by (intro emits_weaken [OF assms(2)]) (auto intro: script_append)
qed (auto intro!: emits_throw script_Err simp: script_no_panic)

text \<open>A loop whose body is one step.\<close>

lemma script_foldE:
  assumes "\<And>x. x \<in> set xs \<Longrightarrow> emits obs (f () x) (script [c x])"
  shows "emits obs (foldE f () xs) (script (map c xs))"
  using assms
proof (induction xs)
  case Nil
  show ?case unfolding foldE.simps list.map by (intro emits_return finished)
next
  case (Cons x xs)
  have "emits obs (seqE (f () x) (foldE f () xs)) (script ([c x] @ map c xs))"
    by (rule script_seq) (use Cons in auto)
  then show ?case by (simp add: seqE_def)
qed

section \<open>Invariants of the state\<close>

definition preserves :: "('s \<Rightarrow> bool) \<Rightarrow> ('s, 'a) go \<Rightarrow> bool" where
  "preserves J m \<longleftrightarrow> (\<forall>s. J s \<longrightarrow> J (snd (m s)))"

lemma preservesD: "preserves J m \<Longrightarrow> J s \<Longrightarrow> m s = (r, s') \<Longrightarrow> J s'"
  by (metis preserves_def snd_conv)

lemma preserves_basic: "preserves J (returnE v)" "preserves J (throwE e)" "preserves J (panicE p)"
  by (simp_all add: preserves_def)

lemma preserves_handle:
  assumes "preserves J m" and "\<And>e. preserves J (h e)" and "\<And>v. preserves J (k v)"
  shows "preserves J (handleE m h k)"
  unfolding preserves_def
proof (intro allI impI)
  fix s assume "J s"
  obtain r s' where "m s = (r, s')" by (cases "m s")
  with preservesD [OF assms(1) \<open>J s\<close>] assms(2,3) show "J (snd (handleE m h k s))"
    by (cases r) (auto simp: handleE_def preserves_def)
qed

lemma preserves_bind: "preserves J m \<Longrightarrow> (\<And>v. preserves J (k v)) \<Longrightarrow> preserves J (bindE m k)"
  and preserves_seq: "preserves J m \<Longrightarrow> preserves J k' \<Longrightarrow> preserves J (seqE m k')"
  unfolding bindE_def seqE_def by (auto intro: preserves_handle preserves_basic)

lemma preserves_foldE: "(\<And>b x. x \<in> set xs \<Longrightarrow> preserves J (f b x)) \<Longrightarrow> preserves J (foldE f b xs)"
proof (induction xs arbitrary: b)
  case Nil
  show ?case unfolding foldE.simps by (rule preserves_basic)
next
  case (Cons x xs)
  then show ?case unfolding foldE.simps by (intro preserves_handle preserves_basic) auto
qed

lemma preserves_defer:
  assumes "preserves J m" and "preserves J c"
  shows "preserves J (deferE m c)"
  unfolding preserves_def
proof (intro allI impI)
  fix s assume "J s"
  obtain r1 s1 where m: "m s = (r1, s1)" by (cases "m s")
  obtain r2 s2 where c: "c s1 = (r2, s2)" by (cases "c s1")
  from preservesD [OF assms(1) \<open>J s\<close> m] have "J s1" .
  from preservesD [OF assms(2) this c] \<open>J s1\<close> show "J (snd (deferE m c s))"
    using m c by (cases r2) (auto simp: deferE_def)
qed

lemmas preserves_rules = preserves_basic preserves_handle preserves_bind preserves_seq preserves_foldE preserves_defer

section \<open>Policies on traces\<close>

text \<open>
  A policy that holds of the empty trace and of the concatenation of two traces that keep it is kept
  by a program whose parts keep it.
\<close>

definition keeps :: "('s \<Rightarrow> 'e list) \<Rightarrow> ('e list \<Rightarrow> bool) \<Rightarrow> ('s, 'a) go \<Rightarrow> bool" where
  "keeps obs ok m \<longleftrightarrow> emits obs m (\<lambda>evs r. ok evs)"

lemma keepsI: "emits obs m S \<Longrightarrow> (\<And>evs r. S evs r \<Longrightarrow> ok evs) \<Longrightarrow> keeps obs ok m"
  unfolding keeps_def by (rule emits_weaken)

lemma keepsD: "keeps obs ok m \<Longrightarrow> m s = (r, s') \<Longrightarrow> \<exists>evs. obs s' = obs s @ evs \<and> ok evs"
  unfolding keeps_def by (blast elim: emitsE)

locale trace_policy =
  fixes ok :: "'e list \<Rightarrow> bool" and obs :: "'s \<Rightarrow> 'e list"
  assumes ok_Nil: "ok []"
    and ok_append: "ok a \<Longrightarrow> ok b \<Longrightarrow> ok (a @ b)"
begin

lemma keeps_silent: "silent obs m \<Longrightarrow> keeps obs ok m"
  by (auto simp: silent_emits ok_Nil intro: keepsI)

lemma keeps_basic: "keeps obs ok (returnE v)" "keeps obs ok (throwE e)" "keeps obs ok (panicE p)"
  by (auto intro: keeps_silent)

lemma keeps_handle:
  assumes m: "keeps obs ok m" and "\<And>e. keeps obs ok (h e)" and "\<And>v. keeps obs ok (k v)"
  shows "keeps obs ok (handleE m h k)"
  unfolding keeps_def
proof (rule emits_handle [OF m [unfolded keeps_def]])
  show "emits obs (k v) (\<lambda>evs r. ok (evs0 @ evs))" if "ok evs0" for v evs0
    by (rule emits_weaken [OF assms(3) [unfolded keeps_def]]) (rule ok_append [OF that])
  show "emits obs (h e) (\<lambda>evs r. ok (evs0 @ evs))" if "ok evs0" for e evs0
    by (rule emits_weaken [OF assms(2) [unfolded keeps_def]]) (rule ok_append [OF that])
qed

lemma keeps_bind: "keeps obs ok m \<Longrightarrow> (\<And>v. keeps obs ok (k v)) \<Longrightarrow> keeps obs ok (bindE m k)"
  and keeps_seq: "keeps obs ok m \<Longrightarrow> keeps obs ok k' \<Longrightarrow> keeps obs ok (seqE m k')"
  unfolding bindE_def seqE_def by (auto intro: keeps_handle keeps_basic)

lemma keeps_foldE: "(\<And>b x. x \<in> set xs \<Longrightarrow> keeps obs ok (f b x)) \<Longrightarrow> keeps obs ok (foldE f b xs)"
proof (induction xs arbitrary: b)
  case Nil
  show ?case unfolding foldE.simps by (rule keeps_basic)
next
  case (Cons x xs)
  then show ?case unfolding foldE.simps by (intro keeps_handle keeps_basic) auto
qed

lemma keeps_defer:
  assumes "keeps obs ok m" and "keeps obs ok c"
  shows "keeps obs ok (deferE m c)"
  unfolding keeps_def
proof (rule emitsI)
  fix s
  obtain r1 s1 where m: "m s = (r1, s1)" by (cases "m s")
  obtain r2 s2 where c: "c s1 = (r2, s2)" by (cases "c s1")
  from keepsD [OF assms(1) m] keepsD [OF assms(2) c]
  obtain e1 e2 where "obs s1 = obs s @ e1" "ok e1" "obs s2 = obs s1 @ e2" "ok e2" by blast
  then show "\<exists>evs. obs (snd (deferE m c s)) = obs s @ evs \<and> ok evs"
    using m c ok_append by (cases r2) (auto simp: deferE_def)
qed

lemma keeps_if: "(c \<Longrightarrow> keeps obs ok a) \<Longrightarrow> (\<not> c \<Longrightarrow> keeps obs ok b) \<Longrightarrow> keeps obs ok (if c then a else b)"
  and keeps_option: "keeps obs ok a \<Longrightarrow> (\<And>v. x = Some v \<Longrightarrow> keeps obs ok (f v)) \<Longrightarrow> keeps obs ok (case x of None \<Rightarrow> a | Some v \<Rightarrow> f v)"
  by (simp_all split: option.split)

lemmas keeps_rules = keeps_basic keeps_handle keeps_bind keeps_seq keeps_foldE keeps_defer

end

text \<open>
  The policy of guarded entries: a critical entry is directly preceded by one that justifies it.
\<close>

fun guarded_from :: "('e \<Rightarrow> bool) \<Rightarrow> ('e \<Rightarrow> 'e \<Rightarrow> bool) \<Rightarrow> 'e option \<Rightarrow> 'e list \<Rightarrow> bool" where
  "guarded_from crit guard prev [] = True"
| "guarded_from crit guard prev (e # es) =
     ((crit e \<longrightarrow> (case prev of None \<Rightarrow> False | Some g \<Rightarrow> guard g e)) \<and> guarded_from crit guard (Some e) es)"

definition guarded :: "('e \<Rightarrow> bool) \<Rightarrow> ('e \<Rightarrow> 'e \<Rightarrow> bool) \<Rightarrow> 'e list \<Rightarrow> bool" where
  "guarded crit guard evs = guarded_from crit guard None evs"

lemma guarded_from_mono: "guarded_from crit guard None es \<Longrightarrow> guarded_from crit guard prev es"
  by (cases es) auto

lemma guarded_from_append:
  "guarded_from crit guard prev a \<Longrightarrow> guarded_from crit guard None b \<Longrightarrow> guarded_from crit guard prev (a @ b)"
  by (induction a arbitrary: prev) (auto intro: guarded_from_mono)

lemma guarded_uncritical: "\<forall>e \<in> set evs. \<not> crit e \<Longrightarrow> guarded crit guard evs"
proof -
  have "guarded_from crit guard prev evs" if "\<forall>e \<in> set evs. \<not> crit e" for prev
    using that by (induction evs arbitrary: prev) auto
  then show "\<forall>e \<in> set evs. \<not> crit e \<Longrightarrow> guarded crit guard evs" by (simp add: guarded_def)
qed

lemma guarded_meaning:
  assumes "guarded crit guard (pre @ e # post)" and "crit e"
  shows "\<exists>pre' g. pre = pre' @ [g] \<and> guard g e"
proof -
  have "pre \<noteq> [] \<and> guard (last pre) e \<or> (\<exists>g. pre = [] \<and> prev = Some g \<and> guard g e)"
    if "guarded_from crit guard prev (pre @ e # post)" for prev
    using that assms(2) by (induction pre arbitrary: prev) (auto split: option.splits)
  with assms(1) have "pre \<noteq> []" "guard (last pre) e" by (fastforce simp: guarded_def)+
  then show ?thesis by (metis append_butlast_last_id)
qed

interpretation guarded: trace_policy "guarded crit guard" obs for crit guard obs
  by unfold_locales (simp_all add: guarded_def guarded_from_append)

end
