(* ===== verification/Go_Strings.thy ===== *)
theory Go_Strings
  imports Prelude "HOL-Library.Sublist" "HOL-Library.Char_ord"
begin

text \<open>
  Go strings are byte sequences, and so is HOL's \<open>string\<close> (a list of 8-bit characters).
  This theory models what the program uses of the Go packages \<open>strings\<close>, \<open>bufio\<close>,
  \<open>unicode\<close> and \<open>unicode/utf8\<close>, and of the decimal and list verbs of \<open>fmt\<close>,
  byte for byte, with the lemmas on splitting, joining and replacing the components share.
\<close>

section \<open>Prefixes, suffixes and splitting\<close>

abbreviation newline :: char where "newline \<equiv> CHR 0x0A"
abbreviation backslash :: char where "backslash \<equiv> CHR 0x5C"

definition HasPrefix :: "string \<Rightarrow> string \<Rightarrow> bool" where
  "HasPrefix s pre \<longleftrightarrow> length pre \<le> length s \<and> take (length pre) s = pre"

definition HasSuffix :: "string \<Rightarrow> string \<Rightarrow> bool" where
  "HasSuffix s suf \<longleftrightarrow> length suf \<le> length s \<and> drop (length s - length suf) s = suf"

lemma HasPrefix_iff: "HasPrefix s pre \<longleftrightarrow> (\<exists>t. s = pre @ t)"
  by (auto simp: HasPrefix_def) (metis append_take_drop_id)

lemma HasSuffix_iff: "HasSuffix s suf \<longleftrightarrow> (\<exists>t. s = t @ suf)"
  by (auto simp: HasSuffix_def) (metis append_take_drop_id)

lemma HasPrefix_append [simp]: "HasPrefix (pre @ t) pre"
  by (auto simp: HasPrefix_iff)

lemma HasPrefix_trans: "HasPrefix s t \<Longrightarrow> HasPrefix t u \<Longrightarrow> HasPrefix s u"
  by (auto simp: HasPrefix_iff)

text \<open>\<open>strings.Split(s, sep)\<close> for a separator of one byte: never an empty list.\<close>

fun Split :: "string \<Rightarrow> char \<Rightarrow> string list" where
  "Split [] c = [[]]"
| "Split (x # xs) c = (if x = c then [] # Split xs c
     else (case Split xs c of [] \<Rightarrow> [[x]] | y # ys \<Rightarrow> (x # y) # ys))"

text \<open>\<open>strings.SplitN(s, sep, 2)\<close> for a separator of one byte.\<close>

definition SplitN2 :: "string \<Rightarrow> char \<Rightarrow> string list" where
  "SplitN2 s c = (if c \<in> set s then [takeWhile (\<lambda>x. x \<noteq> c) s, tl (dropWhile (\<lambda>x. x \<noteq> c) s)] else [s])"

fun Join :: "string list \<Rightarrow> string \<Rightarrow> string" where
  "Join [] sep = []"
| "Join [x] sep = x"
| "Join (x # y # ys) sep = x @ sep @ Join (y # ys) sep"

definition Count_newlines :: "string \<Rightarrow> nat" where
  "Count_newlines s = count_list s newline"

lemma Split_nonempty [simp]: "Split s c \<noteq> []"
  by (cases s) (auto split: list.splits)

lemma Split_no_sep: "c \<notin> set s \<Longrightarrow> Split s c = [s]"
  by (induction s) auto

lemma Split_append_sep: "c \<notin> set s \<Longrightarrow> Split (s @ c # t) c = s # Split t c"
  by (induction s) auto

lemma Split_Join: "xs \<noteq> [] \<Longrightarrow> \<forall>x \<in> set xs. c \<notin> set x \<Longrightarrow> Split (Join xs [c]) c = xs"
  by (induction xs "[c]" rule: Join.induct) (auto simp: Split_no_sep Split_append_sep)

lemma Join_Split: "Join (Split s c) [c] = s"
proof (induction s)
  case (Cons x xs)
  obtain y ys where yy: "Split xs c = y # ys" by (metis Split_nonempty neq_Nil_conv)
  with Cons show ?case by (cases ys) auto
qed simp

lemma SplitN2_length: "length (SplitN2 s c) < 2 \<longleftrightarrow> c \<notin> set s"
  by (simp add: SplitN2_def)

lemma SplitN2_eq: "c \<notin> set h \<Longrightarrow> SplitN2 (h @ c # t) c = [h, t]"
proof -
  assume c: "c \<notin> set h"
  then have "takeWhile (\<lambda>x. x \<noteq> c) (h @ c # t) = h" "dropWhile (\<lambda>x. x \<noteq> c) (h @ c # t) = c # t"
    by (induction h) auto
  then show ?thesis by (simp add: SplitN2_def)
qed

lemma split_at_first: "c \<in> set s \<Longrightarrow> \<exists>h t. s = h @ c # t \<and> c \<notin> set h"
  by (meson split_list_first)

section \<open>Replacers\<close>

text \<open>
  \<open>strings.NewReplacer(old1, new1, ...).Replace(s)\<close> for non-empty old strings: one pass
  from left to right; at each position the first pair, in argument order, whose old string starts
  there is replaced, and the scan goes on behind it.
\<close>

function Replace :: "(string \<times> string) list \<Rightarrow> string \<Rightarrow> string" where
  "Replace ps [] = []"
| "Replace ps (c # cs) =
     (case find (\<lambda>(old, new). old \<noteq> [] \<and> HasPrefix (c # cs) old) ps of
        Some (old, new) \<Rightarrow> new @ Replace ps (drop (length old - 1) cs)
      | None \<Rightarrow> c # Replace ps cs)"
  by pat_completeness auto
termination
  by (relation "measure (\<lambda>(ps, s). length s)") auto

section \<open>Scanning lines\<close>

text \<open>
  \<open>bufio.Scanner\<close> with the default \<open>ScanLines\<close>: lines end at a newline or at the end of
  the input, one carriage return before the end is dropped, and an empty rest gives no line. The
  scanner's buffer holds 64 KiB: a line that does not fit, its newline included, ends the scan
  (\<open>Scan\<close> returns false with the error \<open>ErrTooLong\<close>). The second component tells
  whether that happened.
\<close>

definition MaxScanTokenSize :: nat where "MaxScanTokenSize = 65536"

definition dropCR :: "string \<Rightarrow> string" where
  "dropCR l = (if l \<noteq> [] \<and> last l = CHR 0x0D then butlast l else l)"

function scan_lines :: "string \<Rightarrow> string list \<times> bool" where
  "scan_lines s = (if s = [] then ([], False)
     else let line = takeWhile (\<lambda>c. c \<noteq> newline) s
          in if MaxScanTokenSize \<le> length line then ([], True)
             else (case scan_lines (drop (Suc (length line)) s) of (ls, e) \<Rightarrow> (dropCR line # ls, e)))"
  by pat_completeness auto
termination
  by (relation "measure length") auto

declare scan_lines.simps [simp del]

lemma scan_lines_Nil [simp]: "scan_lines [] = ([], False)"
  by (subst scan_lines.simps) simp

lemma scan_lines_line:
  assumes "newline \<notin> set l" and "length l < MaxScanTokenSize"
  shows "scan_lines (l @ newline # rest) = (dropCR l # fst (scan_lines rest), snd (scan_lines rest))"
proof -
  have "takeWhile (\<lambda>c. c \<noteq> newline) (l @ newline # rest) = l"
    using assms(1) by (induction l) auto
  then show ?thesis
    using assms(2) by (subst scan_lines.simps) (simp add: Let_def split: prod.split)
qed

lemma scan_lines_too_long:
  assumes "newline \<notin> set l" and "MaxScanTokenSize \<le> length l"
  shows "scan_lines (l @ rest) = ([], True)"
proof -
  have "takeWhile (\<lambda>c. c \<noteq> newline) (l @ rest) = l @ takeWhile (\<lambda>c. c \<noteq> newline) rest"
    using assms(1) by (induction l) auto
  moreover have "l @ rest \<noteq> []"
    using assms(2) by (auto simp: MaxScanTokenSize_def)
  ultimately show ?thesis
    using assms(2) by (subst scan_lines.simps) (simp add: Let_def)
qed

text \<open>A text of short lines without carriage returns at their ends scans back to its lines.\<close>

definition plain_line :: "string \<Rightarrow> bool" where
  "plain_line l \<longleftrightarrow> newline \<notin> set l \<and> length l < MaxScanTokenSize \<and> (l = [] \<or> last l \<noteq> CHR 0x0D)"

lemma scan_lines_concat:
  assumes "\<forall>l \<in> set ls. plain_line l"
  shows "scan_lines (concat (map (\<lambda>l. l @ [newline]) ls)) = (ls, False)"
  using assms
proof (induction ls)
  case (Cons l ls)
  have "scan_lines (l @ newline # concat (map (\<lambda>l. l @ [newline]) ls)) = (dropCR l # ls, False)"
    using Cons by (subst scan_lines_line) (simp_all add: plain_line_def)
  moreover have "dropCR l = l" using Cons.prems by (auto simp: plain_line_def dropCR_def)
  ultimately show ?case by simp
qed simp

section \<open>UTF-8\<close>

text \<open>
  \<open>utf8.DecodeRuneInString\<close>: the first rune of a string and its width in bytes. An invalid
  or truncated sequence is the replacement rune with width 1, the empty string gives width 0.
\<close>

definition RuneError :: nat where "RuneError = 65533"

definition in_range :: "nat \<Rightarrow> nat \<Rightarrow> char \<Rightarrow> bool" where
  "in_range lo hi c \<longleftrightarrow> lo \<le> of_char c \<and> of_char c \<le> hi"

definition second_range :: "nat \<Rightarrow> nat \<times> nat" where
  "second_range b = (if b = 224 then (160, 191) else if b = 237 then (128, 159)
     else if b = 240 then (144, 191) else if b = 244 then (128, 143) else (128, 191))"

definition decode_rune :: "string \<Rightarrow> nat \<times> nat" where
  "decode_rune s = (case s of [] \<Rightarrow> (RuneError, 0) | c0 # t \<Rightarrow>
     (let b0 = of_char c0; (lo, hi) = second_range b0; cont = in_range 128 191 in
      if b0 < 128 then (b0, 1)
      else if 194 \<le> b0 \<and> b0 \<le> 223 then
        (case t of c1 # _ \<Rightarrow> if in_range lo hi c1 then ((b0 - 192) * 64 + (of_char c1 - 128), 2) else (RuneError, 1)
         | _ \<Rightarrow> (RuneError, 1))
      else if 224 \<le> b0 \<and> b0 \<le> 239 then
        (case t of c1 # c2 # _ \<Rightarrow> if in_range lo hi c1 \<and> cont c2
           then ((b0 - 224) * 4096 + (of_char c1 - 128) * 64 + (of_char c2 - 128), 3) else (RuneError, 1)
         | _ \<Rightarrow> (RuneError, 1))
      else if 240 \<le> b0 \<and> b0 \<le> 244 then
        (case t of c1 # c2 # c3 # _ \<Rightarrow> if in_range lo hi c1 \<and> cont c2 \<and> cont c3
           then ((b0 - 240) * 262144 + (of_char c1 - 128) * 4096 + (of_char c2 - 128) * 64 + (of_char c3 - 128), 4)
           else (RuneError, 1)
         | _ \<Rightarrow> (RuneError, 1))
      else (RuneError, 1)))"

text \<open>\<open>utf8.DecodeLastRuneInString\<close>: looks back at most four bytes for a leading byte.\<close>

definition is_cont :: "char \<Rightarrow> bool" where
  "is_cont c \<longleftrightarrow> in_range 128 191 c"

fun last_start :: "string \<Rightarrow> nat \<Rightarrow> nat" where
  "last_start [] n = 0"
| "last_start (c # cs) n = (if is_cont c \<and> 0 < n then Suc (last_start cs (n - 1)) else 0)"

definition decode_last_rune :: "string \<Rightarrow> nat \<times> nat" where
  "decode_last_rune s = (if s = [] then (RuneError, 0)
     else let w = min (length s) (Suc (last_start (rev s) 3));
              (r, n) = decode_rune (drop (length s - w) s)
          in if n = w then (r, n) else (RuneError, 1))"

text \<open>\<open>utf8.EncodeRune\<close> as \<open>strings.Map\<close> uses it.\<close>

definition encode_rune :: "nat \<Rightarrow> string" where
  "encode_rune r =
     (if r < 128 then [char_of r]
      else if r < 2048 then [char_of (192 + r div 64), char_of (128 + r mod 64)]
      else if 1114111 < r \<or> (55296 \<le> r \<and> r \<le> 57343) then [char_of (239::nat), char_of (191::nat), char_of (189::nat)]
      else if r < 65536 then [char_of (224 + r div 4096), char_of (128 + r div 64 mod 64), char_of (128 + r mod 64)]
      else [char_of (240 + r div 262144), char_of (128 + r div 4096 mod 64), char_of (128 + r div 64 mod 64), char_of (128 + r mod 64)])"

lemma decode_rune_width: "s \<noteq> [] \<Longrightarrow> 0 < snd (decode_rune s)"
  by (cases s) (auto simp: decode_rune_def Let_def split: prod.splits list.splits if_splits)

text \<open>
  The byte segments of the runes of a string, in order, as \<open>for range\<close> visits them.
\<close>

function rune_segments :: "string \<Rightarrow> string list" where
  "rune_segments s = (if s = [] then []
     else take (snd (decode_rune s)) s # rune_segments (drop (snd (decode_rune s)) s))"
  by pat_completeness auto
termination
  by (relation "measure length") (auto simp: decode_rune_width)

declare rune_segments.simps [simp del]

definition runes :: "string \<Rightarrow> nat list" where
  "runes s = map (\<lambda>seg. fst (decode_rune seg)) (rune_segments s)"

lemma concat_rune_segments: "concat (rune_segments s) = s"
proof (induction s rule: rune_segments.induct)
  case (1 s)
  then show ?case by (subst rune_segments.simps) auto
qed

definition is_ascii :: "string \<Rightarrow> bool" where
  "is_ascii s \<longleftrightarrow> (\<forall>c \<in> set s. of_char c < (128::nat))"

lemma decode_rune_ascii: "of_char c < (128::nat) \<Longrightarrow> decode_rune (c # s) = (of_char c, 1)"
  by (simp add: decode_rune_def Let_def split: prod.split)

lemma rune_segments_ascii: "is_ascii s \<Longrightarrow> rune_segments s = map (\<lambda>c. [c]) s"
proof (induction s)
  case Nil
  then show ?case by (simp add: rune_segments.simps)
next
  case (Cons c s)
  then have "decode_rune (c # s) = (of_char c, 1)" by (simp add: is_ascii_def decode_rune_ascii)
  with Cons show ?case by (subst rune_segments.simps) (simp add: is_ascii_def)
qed

section \<open>White space\<close>

text \<open>\<open>unicode.IsSpace\<close>: the Latin-1 cases are listed in its code, the others are the property table.\<close>

definition IsSpace :: "nat \<Rightarrow> bool" where
  "IsSpace r \<longleftrightarrow> r \<in> {9, 10, 11, 12, 13, 32, 133, 160} \<or> r = 5760 \<or> (8192 \<le> r \<and> r \<le> 8202)
     \<or> r \<in> {8232, 8233, 8239, 8287, 12288}"

function trim_left :: "string \<Rightarrow> string" where
  "trim_left s = (if s \<noteq> [] \<and> IsSpace (fst (decode_rune s)) then trim_left (drop (snd (decode_rune s)) s) else s)"
  by pat_completeness auto
termination
  by (relation "measure length") (auto simp: decode_rune_width)

lemma decode_last_rune_width: "s \<noteq> [] \<Longrightarrow> 0 < snd (decode_last_rune s)"
  by (auto simp: decode_last_rune_def Let_def split: prod.splits)

function trim_right :: "string \<Rightarrow> string" where
  "trim_right s = (if s \<noteq> [] \<and> IsSpace (fst (decode_last_rune s))
     then trim_right (take (length s - snd (decode_last_rune s)) s) else s)"
  by pat_completeness auto
termination
  by (relation "measure length") (auto simp: decode_last_rune_width)

declare trim_left.simps [simp del] trim_right.simps [simp del]

definition TrimSpace :: "string \<Rightarrow> string" where
  "TrimSpace s = trim_right (trim_left s)"

text \<open>\<open>strings.Fields\<close>: the maximal runs of runes that are no white space.\<close>

fun fields_acc :: "string \<Rightarrow> string list \<Rightarrow> string list" where
  "fields_acc acc [] = (if acc = [] then [] else [acc])"
| "fields_acc acc (seg # segs) =
     (if IsSpace (fst (decode_rune seg)) then (if acc = [] then [] else [acc]) @ fields_acc [] segs
      else fields_acc (acc @ seg) segs)"

definition Fields :: "string \<Rightarrow> string list" where
  "Fields s = fields_acc [] (rune_segments s)"

lemma trim_left_Nil [simp]: "trim_left [] = []" and trim_right_Nil [simp]: "trim_right [] = []"
  by (simp_all add: trim_left.simps trim_right.simps)

lemma TrimSpace_Nil [simp]: "TrimSpace [] = []"
  by (simp add: TrimSpace_def)

lemma fields_acc_nonempty: "\<forall>f \<in> set (fields_acc acc segs). f \<noteq> []"
  if "\<forall>seg \<in> set segs. seg \<noteq> []"
  using that by (induction acc segs rule: fields_acc.induct) auto

section \<open>Lower case\<close>

text \<open>
  \<open>strings.ToLower\<close>. On a string of ASCII bytes it maps the capital letters. On any other
  string it decodes the runes, maps each by \<open>unicode.ToLower\<close> and encodes them again. The
  part of the Unicode tables above the ASCII range is the parameter \<open>lower_table\<close>.
\<close>

definition lower_ascii :: "char \<Rightarrow> char" where
  "lower_ascii c = (if in_range 65 90 c then char_of (of_char c + 32 :: nat) else c)"

definition lower_rune :: "(nat \<Rightarrow> nat) \<Rightarrow> nat \<Rightarrow> nat" where
  "lower_rune lower_table r = (if 65 \<le> r \<and> r \<le> 90 then r + 32 else if r < 128 then r else lower_table r)"

definition ToLower :: "(nat \<Rightarrow> nat) \<Rightarrow> string \<Rightarrow> string" where
  "ToLower lower_table s = (if is_ascii s then map lower_ascii s
     else concat (map (\<lambda>r. encode_rune (lower_rune lower_table r)) (runes s)))"

lemma ToLower_ascii: "is_ascii s \<Longrightarrow> ToLower t s = map lower_ascii s"
  by (simp add: ToLower_def)

section \<open>Formatting verbs\<close>

text \<open>\<open>%d\<close> of an integer, and \<open>%s\<close> of a slice of strings.\<close>

fun digits_acc :: "nat \<Rightarrow> string \<Rightarrow> string" where
  "digits_acc n acc = (if n < 10 then char_of (48 + n) # acc
     else digits_acc (n div 10) (char_of (48 + n mod 10) # acc))"

declare digits_acc.simps [simp del]

definition fmt_d :: "int \<Rightarrow> string" where
  "fmt_d i = (if i < 0 then CHR ''-'' # digits_acc (nat (- i)) [] else digits_acc (nat i) [])"

lemma fmt_d_digit: "0 \<le> i \<Longrightarrow> i < 10 \<Longrightarrow> fmt_d i = [char_of (48 + nat i)]"
  by (subst fmt_d_def, subst digits_acc.simps) (simp add: nat_less_iff)

definition fmt_slice :: "string list \<Rightarrow> string" where
  "fmt_slice xs = ''['' @ Join xs '' '' @ '']''"

end
