(* ===== verification/Api_Types.thy ===== *)
theory Api_Types
  imports Go_Strings
begin

text \<open>
  The container declaration (\<open>types/api.go\<close>) and the parts of the Docker API types the program
  fills in or reads. A pointer is an \<open>option\<close> (\<open>nil\<close> is \<open>None\<close>), and so is a slice whose
  being nil the program tests; other slices are lists.
\<close>

section \<open>The container declaration\<close>

text \<open>
  \<open>RestartPolicy\<close> is a string type with three constants, any other string can be parsed into it.
\<close>

type_synonym RestartPolicy = string

definition RestartPolicyAlways :: RestartPolicy where "RestartPolicyAlways = ''Always''"
definition RestartPolicyOnFailure :: RestartPolicy where "RestartPolicyOnFailure = ''OnFailure''"
definition RestartPolicyNever :: RestartPolicy where "RestartPolicyNever = ''Never''"

record VolumeMount =
  vm_Name :: string
  vm_MountPath :: string
  vm_ReadOnly :: bool

record EnvVar =
  ev_Name :: string
  ev_Value :: string

record SecurityContextDeclaration =
  Privileged :: bool

record Container =
  ct_Name :: string
  ct_Image :: string
  ct_Command :: "string list option"
  ct_Args :: "string list option"
  ct_VolumeMounts :: "VolumeMount list"
  ct_Env :: "EnvVar list"
  ct_SecurityContext :: SecurityContextDeclaration
  ct_StdIn :: bool
  ct_Tty :: bool

record EmptyDirVolume =
  Medium :: string

record HostPathVolume =
  Path :: string

text \<open>\<open>Partition\<close> is a Go \<open>int\<close> that is compared and printed, never computed with.\<close>

record GcePersistentDiskVolume =
  PdName :: string
  FsType :: string
  Partition :: int

record Volume =
  vol_Name :: string
  vol_EmptyDir :: "EmptyDirVolume option"
  vol_HostPath :: "HostPathVolume option"
  vol_GcePersistentDisk :: "GcePersistentDiskVolume option"

record ContainerSpecStruct =
  Containers :: "Container list"
  Volumes :: "Volume list"
  spec_RestartPolicy :: "RestartPolicy option"

record ContainerSpec =
  Spec :: ContainerSpecStruct

section \<open>Docker API types\<close>

text \<open>
  The fields of the Docker types that the program sets or reads. Every other field of a
  configuration is left at Go's zero value by the composite literals of the code.
\<close>

record DockerContainer =
  dc_ID :: string
  dc_Names :: "string list"

record DockerConfig =
  cfg_Entrypoint :: "string list option"
  cfg_Cmd :: "string list option"
  cfg_Image :: string
  cfg_Env :: "string list"
  cfg_OpenStdin :: bool
  cfg_Tty :: bool

record DockerHostConfig =
  hc_Binds :: "string list"
  hc_AutoRemove :: bool
  hc_NetworkMode :: string
  hc_Privileged :: bool
  hc_LogType :: string
  hc_LogConfig :: "(string \<times> string) list"
  hc_RestartPolicyName :: string

end
