(* ===== verification/Json_Strings.thy ===== *)
theory Json_Strings
  imports Go_Strings
begin

text \<open>
  The strings of Go's \<open>encoding/json\<close>: how the encoder writes one, and how the decoder reads
  it. The decoder reads back what the encoder writes, up to the bytes that are not UTF-8, which both
  replace.
\<close>

section \<open>Encoding strings\<close>

fun position :: "'a \<Rightarrow> 'a list \<Rightarrow> nat option" where
  "position x [] = None"
| "position x (y # ys) = (if x = y then Some 0 else map_option Suc (position x ys))"

lemma position_nth: "distinct xs \<Longrightarrow> i < length xs \<Longrightarrow> position (xs ! i) xs = Some i"
proof (induction xs arbitrary: i)
  case (Cons x xs)
  then show ?case by (cases i) (auto simp: nth_eq_iff_index_eq)
qed simp

definition hex_digits :: string where
  "hex_digits = ''0123456789abcdef''"

abbreviation dquote :: char where "dquote \<equiv> CHR 0x22"

text \<open>
  How the encoder writes a string: a byte below 128 stands for itself unless it is a control
  character, a quote, a backslash or one of the three characters special in HTML; an invalid byte
  becomes the replacement rune, and the two line separators of Unicode are escaped.
\<close>

definition json_byte :: "char \<Rightarrow> string" where
  "json_byte c =
     (if c = dquote \<or> c = backslash then [backslash, c]
      else if c = CHR 0x08 then [backslash, CHR ''b'']
      else if c = CHR 0x0C then [backslash, CHR ''f'']
      else if c = CHR 0x0A then [backslash, CHR ''n'']
      else if c = CHR 0x0D then [backslash, CHR ''r'']
      else if c = CHR 0x09 then [backslash, CHR ''t'']
      else if in_range 0 31 c \<or> c = CHR ''<'' \<or> c = CHR ''>'' \<or> c = CHR ''&''
        then backslash # ''u00'' @ [hex_digits ! (of_char c div 16), hex_digits ! (of_char c mod 16)]
      else [c])"

definition json_segment :: "string \<Rightarrow> string" where
  "json_segment seg =
     (case decode_rune seg of (r, n) \<Rightarrow>
        if r < 128 then json_byte (hd seg)
        else if r = RuneError \<and> n = 1 then backslash # ''ufffd''
        else if r = 8232 then backslash # ''u2028''
        else if r = 8233 then backslash # ''u2029''
        else seg)"

definition json_string :: "string \<Rightarrow> string" where
  "json_string s = dquote # concat (map json_segment (rune_segments s)) @ [dquote]"

section \<open>Decoding strings\<close>

text \<open>Four hexadecimal digits, of either case, and the rest of the text.\<close>

definition hex_value :: "char \<Rightarrow> nat option" where
  "hex_value c = position (if in_range 65 70 c then char_of (of_char c + 32 :: nat) else c) hex_digits"

definition hex4 :: "string \<Rightarrow> (nat \<times> string) option" where
  "hex4 s = (case s of
     w # x # y # z # rest \<Rightarrow>
       (case (hex_value w, hex_value x, hex_value y, hex_value z) of
          (Some i, Some j, Some k, Some l) \<Rightarrow> Some (i * 4096 + j * 256 + k * 16 + l, rest)
        | _ \<Rightarrow> None)
   | _ \<Rightarrow> None)"

definition simple_escape :: "char \<Rightarrow> char option" where
  "simple_escape c = map_of [(dquote, dquote), (backslash, backslash), (CHR ''/'', CHR ''/''), (CHR ''b'', CHR 0x08),
     (CHR ''f'', CHR 0x0C), (CHR ''n'', CHR 0x0A), (CHR ''r'', CHR 0x0D), (CHR ''t'', CHR 0x09)] c"

text \<open>The second half of a surrogate pair: the escape of a low surrogate behind a high one.\<close>

definition low_surrogate :: "nat \<Rightarrow> string \<Rightarrow> (nat \<times> string) option" where
  "low_surrogate r s = (case s of
     b # u # t \<Rightarrow>
       (if b = backslash \<and> u = CHR ''u'' then
          (case hex4 t of
             Some (r2, rest) \<Rightarrow>
               if 55296 \<le> r \<and> r < 56320 \<and> 56320 \<le> r2 \<and> r2 < 57344
               then Some ((r - 55296) * 1024 + (r2 - 56320) + 65536, rest) else None
           | None \<Rightarrow> None)
        else None)
   | _ \<Rightarrow> None)"

definition unicode_escape :: "string \<Rightarrow> (nat \<times> string) option" where
  "unicode_escape s = (case hex4 s of
     None \<Rightarrow> None
   | Some (r, rest) \<Rightarrow>
       if 55296 \<le> r \<and> r < 57344
       then (case low_surrogate r rest of Some pair \<Rightarrow> Some pair | None \<Rightarrow> Some (RuneError, rest))
       else Some (r, rest))"

lemma hex4_shorter: "hex4 s = Some (r, rest) \<Longrightarrow> length rest < length s"
  by (auto simp: hex4_def split: list.splits option.splits)

lemma low_surrogate_shorter: "low_surrogate r s = Some (r', rest) \<Longrightarrow> length rest < length s"
  by (auto simp: low_surrogate_def dest: hex4_shorter split: list.splits option.splits if_splits)

lemma unicode_escape_shorter: "unicode_escape s = Some (r, rest) \<Longrightarrow> length rest < length s"
  by (fastforce simp: unicode_escape_def dest!: hex4_shorter low_surrogate_shorter split: option.splits if_splits)

text \<open>The value of a string and what follows it, read behind the opening quote.\<close>

function json_unquote :: "string \<Rightarrow> (string \<times> string) option" where
  "json_unquote [] = None"
| "json_unquote (c # s) =
     (if c = dquote then Some ([], s)
      else if c = backslash then
        (case s of
           [] \<Rightarrow> None
         | e # t \<Rightarrow>
             if e = CHR ''u'' then
               (case unicode_escape t of
                  Some (r, rest) \<Rightarrow> map_option (apfst (append (encode_rune r))) (json_unquote rest)
                | None \<Rightarrow> None)
             else
               (case simple_escape e of
                  Some v \<Rightarrow> map_option (apfst (Cons v)) (json_unquote t)
                | None \<Rightarrow> None))
      else if in_range 0 31 c then None
      else if of_char c < (128::nat) then map_option (apfst (Cons c)) (json_unquote s)
      else (case decode_rune (c # s) of (r, n) \<Rightarrow>
        map_option (apfst (append (encode_rune r))) (json_unquote (drop (n - 1) s))))"
  by pat_completeness auto
termination
  by (relation "measure length") (auto dest: unicode_escape_shorter)

declare json_unquote.simps [simp del]

section \<open>Strings read back\<close>

text \<open>A string with every invalid byte replaced by the replacement rune.\<close>

definition valid_rune :: "nat \<times> nat \<Rightarrow> bool" where
  "valid_rune rn \<longleftrightarrow> rn \<noteq> (RuneError, 1)"

definition scrub :: "string \<Rightarrow> string" where
  "scrub s = concat (map (\<lambda>seg. encode_rune (fst (decode_rune seg))) (rune_segments s))"

definition valid_utf8 :: "string \<Rightarrow> bool" where
  "valid_utf8 s \<longleftrightarrow> (\<forall>seg \<in> set (rune_segments s). valid_rune (decode_rune seg))"

lemma of_char_256 [simp]: "(of_char c :: nat) < 256"
  by (rule nat_of_char_less_256)

text \<open>A continuation byte holds six bits: they come back from the number the bytes make up.\<close>

lemma six_bits:
  fixes a b c d :: nat
  assumes "b < 64" "c < 64" "d < 64"
  shows "(a * 64 + b) div 64 = a" "(a * 64 + b) mod 64 = b"
    "(a * 4096 + b * 64 + c) div 4096 = a" "(a * 4096 + b * 64 + c) div 64 mod 64 = b" "(a * 4096 + b * 64 + c) mod 64 = c"
    "(a * 262144 + b * 4096 + c * 64 + d) div 262144 = a" "(a * 262144 + b * 4096 + c * 64 + d) div 4096 mod 64 = b"
    "(a * 262144 + b * 4096 + c * 64 + d) div 64 mod 64 = c" "(a * 262144 + b * 4096 + c * 64 + d) mod 64 = d"
proof -
  have one: "(x * 64 + y) div 64 = x" "(x * 64 + y) mod 64 = y" if "y < 64" for x y :: nat
    using that by simp_all
  have two: "(x * 64 + y) div 4096 = x div 64" if "y < 64" for x y :: nat
    using div_mult2_eq [of "x * 64 + y" 64 64] one(1) [OF that, of x] by simp
  have three: "(x * 64 + y) div 262144 = x div 4096" if "y < 64" for x y :: nat
    using div_mult2_eq [of "x * 64 + y" 64 4096] one(1) [OF that, of x] by simp
  have h2: "a * 4096 + b * 64 + c = (a * 64 + b) * 64 + c" by simp
  have h3: "a * 262144 + b * 4096 + c * 64 + d = ((a * 64 + b) * 64 + c) * 64 + d" by simp
  show "(a * 64 + b) div 64 = a" "(a * 64 + b) mod 64 = b" using one [OF assms(1)] by blast+
  show "(a * 4096 + b * 64 + c) div 4096 = a" "(a * 4096 + b * 64 + c) div 64 mod 64 = b" "(a * 4096 + b * 64 + c) mod 64 = c"
    unfolding h2 one [OF assms(2)] one [OF assms(1)] two [OF assms(2)] by (rule refl)+
  show "(a * 262144 + b * 4096 + c * 64 + d) div 262144 = a" "(a * 262144 + b * 4096 + c * 64 + d) div 4096 mod 64 = b"
    "(a * 262144 + b * 4096 + c * 64 + d) div 64 mod 64 = c" "(a * 262144 + b * 4096 + c * 64 + d) mod 64 = d"
    unfolding h3 three [OF assms(3)] two [OF assms(3)] two [OF assms(2)] one [OF assms(3)] one [OF assms(2)] one [OF assms(1)] by (rule refl)+
qed

lemma encode_two:
  fixes b0 b1 :: nat
  assumes "194 \<le> b0" "b0 \<le> 223" "128 \<le> b1" "b1 \<le> 191"
  shows "encode_rune ((b0 - 192) * 64 + (b1 - 128)) = [char_of b0, char_of b1]"
proof -
  obtain x y where x: "b0 = x + 192" "2 \<le> x" "x < 32" and y: "b1 = y + 128" "y < 64"
    using assms le_Suc_ex [of 192 b0] le_Suc_ex [of 128 b1] by force
  have "\<not> x * 64 + y < 128" "x * 64 + y < 2048" using x y by auto
  then have "encode_rune (x * 64 + y) = [char_of (192 + x), char_of (128 + y)]"
    unfolding encode_rune_def six_bits(1,2) [OF y(2) y(2) y(2)] by (simp only: if_True if_False)
  with x y show ?thesis by (simp add: add.commute)
qed

lemma encode_three:
  fixes b0 b1 b2 :: nat
  assumes "224 \<le> b0" "b0 \<le> 239" "128 \<le> b1" "b1 \<le> 191" "128 \<le> b2" "b2 \<le> 191"
    and "b0 = 224 \<Longrightarrow> 160 \<le> b1" "b0 = 237 \<Longrightarrow> b1 \<le> 159"
  shows "encode_rune ((b0 - 224) * 4096 + (b1 - 128) * 64 + (b2 - 128)) = [char_of b0, char_of b1, char_of b2]"
proof -
  obtain x y z where x: "b0 = x + 224" "x < 16" and y: "b1 = y + 128" "y < 64" and z: "b2 = z + 128" "z < 64"
    using assms(1-6) le_Suc_ex [of 224 b0] le_Suc_ex [of 128 b1] le_Suc_ex [of 128 b2] by force
  let ?r = "x * 4096 + y * 64 + z"
  have "2048 \<le> ?r" using assms(7) x y by (cases "x = 0") auto
  moreover have "?r < 65536" using x y z by auto
  moreover have "\<not> (55296 \<le> ?r \<and> ?r \<le> 57343)"
    using assms(8) x y z by (cases "x = 13"; cases "x < 13") auto
  ultimately have "\<not> ?r < 128" "\<not> ?r < 2048" "\<not> (1114111 < ?r \<or> (55296 \<le> ?r \<and> ?r \<le> 57343))" "?r < 65536" by auto
  then have "encode_rune ?r = [char_of (224 + x), char_of (128 + y), char_of (128 + z)]"
    unfolding encode_rune_def six_bits(3,4,5) [OF y(2) z(2) z(2)] by (simp only: if_True if_False)
  with x y z show ?thesis by (simp add: add.commute)
qed

lemma encode_four:
  fixes b0 b1 b2 b3 :: nat
  assumes "240 \<le> b0" "b0 \<le> 244" "128 \<le> b1" "b1 \<le> 191" "128 \<le> b2" "b2 \<le> 191" "128 \<le> b3" "b3 \<le> 191"
    and "b0 = 240 \<Longrightarrow> 144 \<le> b1" "b0 = 244 \<Longrightarrow> b1 \<le> 143"
  shows "encode_rune ((b0 - 240) * 262144 + (b1 - 128) * 4096 + (b2 - 128) * 64 + (b3 - 128)) =
    [char_of b0, char_of b1, char_of b2, char_of b3]"
proof -
  obtain x y z u where x: "b0 = x + 240" "x < 5" and y: "b1 = y + 128" "y < 64" and z: "b2 = z + 128" "z < 64"
    and u: "b3 = u + 128" "u < 64"
    using assms(1-8) le_Suc_ex [of 240 b0] le_Suc_ex [of 128 b1] le_Suc_ex [of 128 b2] le_Suc_ex [of 128 b3] by force
  let ?r = "x * 262144 + y * 4096 + z * 64 + u"
  have "65536 \<le> ?r" using assms(9) x y by (cases "x = 0") auto
  moreover have "?r \<le> 1114111" using assms(10) x y z u by (cases "x = 4") auto
  ultimately have "\<not> ?r < 128" "\<not> ?r < 2048" "\<not> (1114111 < ?r \<or> (55296 \<le> ?r \<and> ?r \<le> 57343))" "\<not> ?r < 65536" by auto
  then have "encode_rune ?r = [char_of (240 + x), char_of (128 + y), char_of (128 + z), char_of (128 + u)]"
    unfolding encode_rune_def six_bits(6,7,8,9) [OF y(2) z(2) u(2)] by (simp only: if_True if_False)
  with x y z u show ?thesis by (simp add: add.commute)
qed

text \<open>
  The bytes of a valid rune: the rune decides them, and they are decoded to it whatever follows.
\<close>

lemma decode_rune_valid:
  assumes d: "decode_rune s = (r, n)" and v: "valid_rune (r, n)" and s: "s \<noteq> []"
  shows "n \<le> length s \<and> encode_rune r = take n s \<and> decode_rune (take n s @ t) = (r, n)"
proof -
  obtain c0 s1 where c0: "s = c0 # s1" using s by (cases s) auto
  let ?b = "of_char c0 :: nat"
  consider (one) "?b < 128" | (two) "194 \<le> ?b" "?b \<le> 223" | (three) "224 \<le> ?b" "?b \<le> 239"
    | (four) "240 \<le> ?b" "?b \<le> 244"
    using d v c0 by (fastforce simp: decode_rune_def valid_rune_def Let_def split: prod.splits if_splits)
  then show ?thesis
  proof cases
    case one
    with d c0 show ?thesis by (auto simp: decode_rune_ascii encode_rune_def)
  next
    case two
    then obtain c1 s2 where s1: "s1 = c1 # s2"
      using d v c0 by (cases s1) (auto simp: decode_rune_def valid_rune_def Let_def second_range_def)
    from two d v c0 s1 have "128 \<le> (of_char c1 :: nat)" "of_char c1 \<le> (191 :: nat)"
      and r: "r = (?b - 192) * 64 + (of_char c1 - 128)" "n = 2"
      by (auto simp: decode_rune_def valid_rune_def Let_def second_range_def in_range_def split: if_splits)
    with two c0 s1 encode_two [of ?b "of_char c1"] show ?thesis
      by (auto simp: decode_rune_def Let_def second_range_def in_range_def)
  next
    case three
    then obtain c1 c2 s3 where s1: "s1 = c1 # c2 # s3"
      using d v c0 by (cases s1 rule: list.exhaust; cases "tl s1" rule: list.exhaust)
        (auto simp: decode_rune_def valid_rune_def Let_def second_range_def)
    from three d v c0 s1 have "128 \<le> (of_char c1 :: nat)" "of_char c1 \<le> (191 :: nat)"
      "128 \<le> (of_char c2 :: nat)" "of_char c2 \<le> (191 :: nat)"
      "?b = 224 \<Longrightarrow> 160 \<le> (of_char c1 :: nat)" "?b = 237 \<Longrightarrow> of_char c1 \<le> (159 :: nat)"
      and r: "r = (?b - 224) * 4096 + (of_char c1 - 128) * 64 + (of_char c2 - 128)" "n = 3"
      by (auto simp: decode_rune_def valid_rune_def Let_def second_range_def in_range_def split: if_splits)
    with three c0 s1 encode_three [of ?b "of_char c1" "of_char c2"] show ?thesis
      by (auto simp: decode_rune_def Let_def second_range_def in_range_def)
  next
    case four
    then obtain c1 c2 c3 s4 where s1: "s1 = c1 # c2 # c3 # s4"
      using d v c0 by (cases s1 rule: list.exhaust; cases "tl s1" rule: list.exhaust; cases "tl (tl s1)" rule: list.exhaust)
        (auto simp: decode_rune_def valid_rune_def Let_def second_range_def)
    from four d v c0 s1 have "128 \<le> (of_char c1 :: nat)" "of_char c1 \<le> (191 :: nat)"
      "128 \<le> (of_char c2 :: nat)" "of_char c2 \<le> (191 :: nat)" "128 \<le> (of_char c3 :: nat)" "of_char c3 \<le> (191 :: nat)"
      "?b = 240 \<Longrightarrow> 144 \<le> (of_char c1 :: nat)" "?b = 244 \<Longrightarrow> of_char c1 \<le> (143 :: nat)"
      and r: "r = (?b - 240) * 262144 + (of_char c1 - 128) * 4096 + (of_char c2 - 128) * 64 + (of_char c3 - 128)" "n = 4"
      by (auto simp: decode_rune_def valid_rune_def Let_def second_range_def in_range_def split: if_splits)
    with four c0 s1 encode_four [of ?b "of_char c1" "of_char c2" "of_char c3"] show ?thesis
      by (auto simp: decode_rune_def Let_def second_range_def in_range_def)
  qed
qed

text \<open>The runes of a string: an ASCII byte, an invalid byte, or the bytes of a valid rune.\<close>

definition rune_bytes :: "string \<Rightarrow> nat \<Rightarrow> bool" where
  "rune_bytes seg r \<longleftrightarrow> seg \<noteq> [] \<and> 128 \<le> r \<and> 128 \<le> (of_char (hd seg) :: nat) \<and> encode_rune r = seg
     \<and> (\<forall>t. decode_rune (seg @ t) = (r, length seg)) \<and> valid_rune (r, length seg)"

lemma decode_rune_segment:
  assumes "s \<noteq> []"
  shows "(\<exists>c. take (snd (decode_rune s)) s = [c] \<and> of_char c < (128 :: nat))
    \<or> (\<exists>c. take (snd (decode_rune s)) s = [c] \<and> 128 \<le> (of_char c :: nat))
    \<or> rune_bytes (take (snd (decode_rune s)) s) (fst (decode_rune s))"
proof -
  obtain r n where d: "decode_rune s = (r, n)" by fastforce
  obtain c s' where c: "s = c # s'" using assms by (cases s) auto
  show ?thesis
  proof (cases "valid_rune (r, n) \<and> 128 \<le> (of_char c :: nat)")
    case True
    note v = decode_rune_valid [OF d conjunct1 [OF True] assms]
    have n: "0 < n" using decode_rune_width [OF assms] d by simp
    then have seg: "take n s \<noteq> []" "hd (take n s) = c" using c by (cases n; simp)+
    have "128 \<le> r"
    proof (rule ccontr)
      assume "\<not> 128 \<le> r"
      then have "take n s = [char_of r]" "r < 128" using v by (auto simp: encode_rune_def)
      then have c: "c = char_of r" using seg(2) by simp
      have "(of_char c :: nat) = r" unfolding c using \<open>r < 128\<close> by simp
      with True \<open>r < 128\<close> show False by simp
    qed
    with True v d seg show ?thesis by (auto simp: rune_bytes_def)
  next
    case False
    then have "n = 1"
      using d c by (auto simp: valid_rune_def decode_rune_ascii)
    with d c show ?thesis by auto
  qed
qed

lemma rune_segments_cases:
  assumes "seg \<in> set (rune_segments s)"
  obtains (ascii) c where "seg = [c]" "of_char c < (128 :: nat)"
    | (invalid) c where "seg = [c]" "128 \<le> (of_char c :: nat)" "decode_rune seg = (RuneError, 1)"
    | (valid) r where "rune_bytes seg r"
proof -
  have one: "decode_rune [c] = (RuneError, 1)" if "128 \<le> (of_char c :: nat)" for c
    using that by (simp add: decode_rune_def Let_def split: prod.splits)
  have "(\<exists>c. seg = [c] \<and> of_char c < (128 :: nat)) \<or> (\<exists>c. seg = [c] \<and> 128 \<le> (of_char c :: nat)) \<or> (\<exists>r. rune_bytes seg r)"
    using assms
  proof (induction s rule: rune_segments.induct)
    case (1 s)
    then show ?case
      using decode_rune_segment [of s] by (subst (asm) (2) rune_segments.simps) (auto split: if_splits)
  qed
  then show ?thesis using that one by blast
qed

lemma hex_value_digit: "n < 16 \<Longrightarrow> hex_value (hex_digits ! n) = Some n"
proof -
  assume n: "n < 16"
  have "\<forall>c \<in> set hex_digits. \<not> in_range 65 70 c" by (simp add: hex_digits_def in_range_def)
  moreover have "hex_digits ! n \<in> set hex_digits" using n by (intro nth_mem) (simp add: hex_digits_def)
  ultimately have "\<not> in_range 65 70 (hex_digits ! n)" by blast
  with n show ?thesis unfolding hex_value_def by (simp, intro position_nth) (simp_all add: hex_digits_def)
qed

lemma unquote_byte:
  assumes "(of_char c :: nat) < 128"
  shows "json_unquote (json_byte c @ t) = map_option (apfst (Cons c)) (json_unquote t)"
proof -
  let ?E = "{dquote, backslash, CHR 0x08, CHR 0x0C, CHR 0x0A, CHR 0x0D, CHR 0x09}"
  let ?H = "in_range 0 31 c \<or> c = CHR ''<'' \<or> c = CHR ''>'' \<or> c = CHR ''&''"
  consider (escaped) "c \<in> ?E" | (hex) "c \<notin> ?E" "?H" | (plain) "c \<notin> ?E" "\<not> ?H"
    by (cases "c \<in> ?E"; cases "?H") (simp_all only: simp_thms)
  then show ?thesis
  proof cases
    case escaped
    then show ?thesis by (auto simp: json_byte_def simple_escape_def json_unquote.simps)
  next
    case hex
    have b: "json_byte c = backslash # ''u00'' @ [hex_digits ! (of_char c div 16), hex_digits ! (of_char c mod 16)]"
      using hex by (simp add: json_byte_def)
    have "hex_value (hex_digits ! (of_char c div 16)) = Some (of_char c div 16)"
      "hex_value (hex_digits ! (of_char c mod 16)) = Some (of_char c mod 16)"
      using assms by (auto intro: hex_value_digit)
    moreover have "hex_value (CHR ''0'') = Some 0"
      using hex_value_digit [of 0] by (simp add: hex_digits_def)
    ultimately have "unicode_escape (CHR ''0'' # CHR ''0'' # hex_digits ! (of_char c div 16) # hex_digits ! (of_char c mod 16) # t)
        = Some (of_char c, t)"
      using assms by (simp add: unicode_escape_def hex4_def)
    moreover have "(@) [c] = (#) c" by (simp add: fun_eq_iff)
    ultimately show ?thesis using assms unfolding b by (simp add: json_unquote.simps encode_rune_def)
  next
    case plain
    with assms show ?thesis by (simp add: json_byte_def json_unquote.simps)
  qed
qed

lemma encode_rune_ascii: "of_char c < (128::nat) \<Longrightarrow> encode_rune (of_char c) = [c]"
  by (simp add: encode_rune_def)

lemma hex_values: "hex_value (CHR ''f'') = Some 15" "hex_value (CHR ''d'') = Some 13" "hex_value (CHR ''0'') = Some 0"
  "hex_value (CHR ''2'') = Some 2" "hex_value (CHR ''8'') = Some 8" "hex_value (CHR ''9'') = Some 9"
  by (simp_all add: hex_value_def hex_digits_def in_range_def)

lemma unquote_segment:
  assumes "seg \<in> set (rune_segments s)"
  shows "json_unquote (json_segment seg @ t) = map_option (apfst (append (encode_rune (fst (decode_rune seg))))) (json_unquote t)"
  using assms
proof (cases rule: rune_segments_cases)
  case (ascii c)
  moreover have "(@) [c] = (#) c" by (simp add: fun_eq_iff)
  ultimately show ?thesis
    by (simp add: json_segment_def decode_rune_ascii unquote_byte encode_rune_ascii)
next
  case (invalid c)
  then show ?thesis
    by (simp add: json_segment_def RuneError_def json_unquote.simps unicode_escape_def hex4_def hex_values)
next
  case (valid r)
  then have d: "decode_rune seg = (r, length seg)" "decode_rune (seg @ t) = (r, length seg)" "128 \<le> r"
    and e: "encode_rune r = seg" and v: "valid_rune (r, length seg)"
    unfolding rune_bytes_def by (metis append_Nil2, blast+)
  obtain c seg' where seg: "seg = c # seg'" and c: "128 \<le> (of_char c :: nat)"
    using valid by (cases seg) (auto simp: rune_bytes_def)
  have n: "\<not> (r = RuneError \<and> length seg = 1)" using v by (auto simp: valid_rune_def)
  consider (separator) "r = 8232 \<or> r = 8233" | (plain) "r \<noteq> 8232" "r \<noteq> 8233" by blast
  then show ?thesis
  proof cases
    case separator
    with d n show ?thesis
      by (auto simp: json_segment_def json_unquote.simps unicode_escape_def hex4_def hex_values RuneError_def)
  next
    case plain
    then have "json_segment seg = seg" using d n by (auto simp: json_segment_def)
    moreover have "\<not> in_range 0 31 c" "c \<noteq> dquote" "c \<noteq> backslash" "\<not> of_char c < (128::nat)"
      using c by (auto simp: in_range_def)
    ultimately show ?thesis
      using d e unfolding seg append_Cons by (simp add: json_unquote.simps)
  qed
qed

text \<open>Reading what the encoder wrote gives the string back, its invalid bytes replaced.\<close>

lemma unquote_json_string: "json_unquote (concat (map json_segment (rune_segments s)) @ dquote # t) = Some (scrub s, t)"
proof -
  have "json_unquote (concat (map json_segment segs) @ dquote # t) =
      Some (concat (map (\<lambda>seg. encode_rune (fst (decode_rune seg))) segs), t)"
    if "set segs \<subseteq> set (rune_segments s)" for segs
    using that
  proof (induction segs)
    case (Cons seg segs)
    then show ?case by (simp add: unquote_segment [of seg s])
  qed (simp add: json_unquote.simps)
  then show ?thesis by (simp add: scrub_def)
qed

lemma scrub_valid: "valid_utf8 s \<Longrightarrow> scrub s = s"
proof -
  assume v: "valid_utf8 s"
  have "encode_rune (fst (decode_rune seg)) = seg" if "seg \<in> set (rune_segments s)" for seg
    using that
  proof (cases rule: rune_segments_cases)
    case (invalid c)
    with v that show ?thesis by (auto simp: valid_utf8_def valid_rune_def)
  next
    case (valid r)
    then have "decode_rune seg = (r, length seg)" unfolding rune_bytes_def by (metis append_Nil2)
    with valid show ?thesis by (simp add: rune_bytes_def)
  qed (simp add: decode_rune_ascii encode_rune_ascii)
  then have "scrub s = concat (map (\<lambda>seg. seg) (rune_segments s))"
    unfolding scrub_def by (metis (mono_tags, lifting) map_cong)
  then show ?thesis by (simp add: concat_rune_segments)
qed

lemma valid_utf8_ascii: "is_ascii s \<Longrightarrow> valid_utf8 s"
  by (auto simp: valid_utf8_def rune_segments_ascii decode_rune_ascii is_ascii_def valid_rune_def RuneError_def)

end
