(* ===== verification/Json.thy ===== *)
theory Json
  imports Json_Strings
begin

text \<open>
  What the program uses of the decoder of Go's \<open>encoding/json\<close>: the syntax of a JSON text,
  and how \<open>Unmarshal\<close> stores a value in a struct. Parsing inverts printing. The texts of the
  decoder's errors vary between releases of Go and are parameters.
\<close>

section \<open>Values\<close>

text \<open>A number keeps its text, and the members of an object their order and their duplicates.\<close>

datatype json =
    JNull
  | JBool bool
  | JNumber string
  | JString string
  | JArray "json list"
  | JObject "(string \<times> json) list"

section \<open>Syntax\<close>

definition json_space :: "char \<Rightarrow> bool" where
  "json_space c \<longleftrightarrow> c = CHR 0x20 \<or> c = CHR 0x09 \<or> c = CHR 0x0A \<or> c = CHR 0x0D"

definition skip_space :: "string \<Rightarrow> string" where
  "skip_space s = dropWhile json_space s"

abbreviation is_digit :: "char \<Rightarrow> bool" where "is_digit c \<equiv> in_range 48 57 c"

text \<open>The text of a number: the longest run of its characters, checked against the grammar.\<close>

definition number_char :: "char \<Rightarrow> bool" where
  "number_char c \<longleftrightarrow> is_digit c \<or> c = CHR ''-'' \<or> c = CHR ''+'' \<or> c = CHR ''.'' \<or> c = CHR ''e'' \<or> c = CHR ''E''"

definition digits :: "string \<Rightarrow> string option" where
  "digits s = (case s of c # t \<Rightarrow> if is_digit c then Some (dropWhile is_digit t) else None | [] \<Rightarrow> None)"

definition exponent_ok :: "string \<Rightarrow> bool" where
  "exponent_ok s \<longleftrightarrow> (case s of [] \<Rightarrow> True | e # t \<Rightarrow> (e = CHR ''e'' \<or> e = CHR ''E'') \<and>
     digits (case t of c # u \<Rightarrow> if c = CHR ''+'' \<or> c = CHR ''-'' then u else t | [] \<Rightarrow> []) = Some [])"

definition fraction_ok :: "string \<Rightarrow> bool" where
  "fraction_ok s \<longleftrightarrow> (case s of [] \<Rightarrow> True | c # t \<Rightarrow>
     if c = CHR ''.'' then (case digits t of None \<Rightarrow> False | Some u \<Rightarrow> exponent_ok u) else exponent_ok s)"

definition number_ok :: "string \<Rightarrow> bool" where
  "number_ok s \<longleftrightarrow> (case (case s of c # t \<Rightarrow> if c = CHR ''-'' then t else s | [] \<Rightarrow> []) of
     [] \<Rightarrow> False
   | c # t \<Rightarrow> if c = CHR ''0'' then fraction_ok t else is_digit c \<and> fraction_ok (dropWhile is_digit t))"

definition parse_literal :: "string \<Rightarrow> json \<Rightarrow> string \<Rightarrow> (json \<times> string) option" where
  "parse_literal lit v s = (if HasPrefix s lit then Some (v, drop (length lit) s) else None)"

definition parse_number :: "string \<Rightarrow> (json \<times> string) option" where
  "parse_number s = (let x = takeWhile number_char s
     in if number_ok x then Some (JNumber x, dropWhile number_char s) else None)"

text \<open>
  A value and what follows it. The first argument is fuel; the second bounds the nesting of arrays
  and objects, which Go limits to 10000.
\<close>

fun parse_value :: "nat \<Rightarrow> nat \<Rightarrow> string \<Rightarrow> (json \<times> string) option"
  and parse_elements :: "nat \<Rightarrow> nat \<Rightarrow> string \<Rightarrow> (json list \<times> string) option"
  and parse_members :: "nat \<Rightarrow> nat \<Rightarrow> string \<Rightarrow> ((string \<times> json) list \<times> string) option" where
  "parse_value 0 d s = None"
| "parse_value (Suc n) d s = (case skip_space s of
     [] \<Rightarrow> None
   | c # t \<Rightarrow>
       if c = CHR ''{'' then
         (if d = 0 then None
          else case skip_space t of
             [] \<Rightarrow> None
           | c' # t' \<Rightarrow> if c' = CHR ''}'' then Some (JObject [], t')
               else map_option (apfst JObject) (parse_members n (d - 1) t))
       else if c = CHR ''['' then
         (if d = 0 then None
          else case skip_space t of
             [] \<Rightarrow> None
           | c' # t' \<Rightarrow> if c' = CHR '']'' then Some (JArray [], t')
               else map_option (apfst JArray) (parse_elements n (d - 1) t))
       else if c = dquote then map_option (apfst JString) (json_unquote t)
       else if c = CHR ''t'' then parse_literal ''true'' (JBool True) (c # t)
       else if c = CHR ''f'' then parse_literal ''false'' (JBool False) (c # t)
       else if c = CHR ''n'' then parse_literal ''null'' JNull (c # t)
       else parse_number (c # t))"
| "parse_elements 0 d s = None"
| "parse_elements (Suc n) d s = (case parse_value n d s of
     None \<Rightarrow> None
   | Some (v, r) \<Rightarrow> (case skip_space r of
       [] \<Rightarrow> None
     | c # t \<Rightarrow>
         if c = CHR '','' then map_option (apfst (Cons v)) (parse_elements n d t)
         else if c = CHR '']'' then Some ([v], t)
         else None))"
| "parse_members 0 d s = None"
| "parse_members (Suc n) d s = (case skip_space s of
     [] \<Rightarrow> None
   | q # t \<Rightarrow>
       if q \<noteq> dquote then None
       else case json_unquote t of
         None \<Rightarrow> None
       | Some (k, r) \<Rightarrow> (case skip_space r of
           [] \<Rightarrow> None
         | c # r' \<Rightarrow>
             if c \<noteq> CHR '':'' then None
             else case parse_value n d r' of
               None \<Rightarrow> None
             | Some (v, r2) \<Rightarrow> (case skip_space r2 of
                 [] \<Rightarrow> None
               | c' # r3 \<Rightarrow>
                   if c' = CHR '','' then map_option (apfst (Cons (k, v))) (parse_members n d r3)
                   else if c' = CHR ''}'' then Some ([(k, v)], r3)
                   else None)))"

definition maxNestingDepth :: nat where "maxNestingDepth = 10000"

text \<open>The value of a JSON text: nothing but white space may follow it.\<close>

definition parse_json :: "string \<Rightarrow> json option" where
  "parse_json s = (case parse_value (2 * length s + 1) maxNestingDepth s of
     Some (v, r) \<Rightarrow> if skip_space r = [] then Some v else None
   | None \<Rightarrow> None)"

section \<open>The parser makes progress, and its fuel is enough\<close>

lemmas parse_rules = parse_value.simps(2) parse_elements.simps(2) parse_members.simps(2)

declare parse_rules [simp del]

lemma json_unquote_shorter: "json_unquote s = Some (v, r) \<Longrightarrow> length r < length s"
proof (induction s arbitrary: v r rule: length_induct)
  case (1 s)
  have IH: "json_unquote s' = Some (a, r) \<Longrightarrow> length s' < length s \<longrightarrow> length r < length s'" for s' a
    using 1(1) by blast
  show ?case
  proof (cases s)
    case (Cons c t)
    with 1(2) have "json_unquote (c # t) = Some (v, r)" by simp
    then show ?thesis
      unfolding json_unquote.simps(2) Cons
      by (fastforce simp: Cons split: if_splits list.splits option.splits prod.splits dest!: IH unicode_escape_shorter)
  qed (use 1(2) in \<open>simp add: json_unquote.simps\<close>)
qed

lemma skip_space_shorter: "skip_space s = c # t \<Longrightarrow> length t < length s"
  by (metis Suc_le_eq length_Cons length_dropWhile_le skip_space_def)

lemma parse_literal_shorter: "lit \<noteq> [] \<Longrightarrow> parse_literal lit v s = Some (w, r) \<Longrightarrow> length r < length s"
  by (cases lit) (auto simp: parse_literal_def HasPrefix_def split: if_splits)

lemma parse_number_shorter:
  assumes "parse_number s = Some (v, r)"
  shows "length r < length s"
proof -
  have "takeWhile number_char s \<noteq> []" and r: "r = dropWhile number_char s"
    using assms by (auto simp: parse_number_def number_ok_def Let_def split: if_splits)
  moreover have "length s = length (takeWhile number_char s) + length (dropWhile number_char s)"
    by (metis length_append takeWhile_dropWhile_id)
  ultimately show ?thesis by (cases "takeWhile number_char s") auto
qed

lemma parse_shorter:
  "(\<forall>d s v r. parse_value n d s = Some (v, r) \<longrightarrow> length r < length s)
   \<and> (\<forall>d s vs r. parse_elements n d s = Some (vs, r) \<longrightarrow> length r < length s)
   \<and> (\<forall>d s ms r. parse_members n d s = Some (ms, r) \<longrightarrow> length r < length s)"
proof (induction n)
  case (Suc n)
  then have IH: "\<And>d s v r. parse_value n d s = Some (v, r) \<Longrightarrow> length r < length s"
    "\<And>d s vs r. parse_elements n d s = Some (vs, r) \<Longrightarrow> length r < length s"
    "\<And>d s ms r. parse_members n d s = Some (ms, r) \<Longrightarrow> length r < length s" by blast+
  note steps = IH skip_space_shorter json_unquote_shorter
  have "length r < length s" if parsed: "parse_value (Suc n) d s = Some (v, r)" for d s v r
  proof -
    obtain c t where ct: "skip_space s = c # t"
      using parsed unfolding parse_rules by (cases "skip_space s") auto
    have "length r < length (c # t)"
      using parsed unfolding parse_rules ct list.case
      by (fastforce split: list.splits if_splits option.splits
          dest!: steps parse_number_shorter parse_literal_shorter [rotated])
    with skip_space_shorter [OF ct] show ?thesis by simp
  qed
  moreover have "length r < length s" if "parse_elements (Suc n) d s = Some (vs, r)" for d s vs r
    using that unfolding parse_rules
    by (fastforce split: list.splits if_splits option.splits dest!: steps)
  moreover have "length r < length s" if "parse_members (Suc n) d s = Some (ms, r)" for d s ms r
    using that unfolding parse_rules
    by (fastforce split: list.splits if_splits option.splits dest!: steps)
  ultimately show ?case by blast
qed simp

lemma parse_more_fuel:
  "(\<forall>d s. 2 * length s + 1 \<le> n \<longrightarrow> parse_value (Suc n) d s = parse_value n d s)
   \<and> (\<forall>d s. 2 * length s + 2 \<le> n \<longrightarrow> parse_elements (Suc n) d s = parse_elements n d s)
   \<and> (\<forall>d s. 2 * length s + 2 \<le> n \<longrightarrow> parse_members (Suc n) d s = parse_members n d s)"
proof (induction n)
  case (Suc n)
  then have IH: "\<And>d s. 2 * length s + 1 \<le> n \<Longrightarrow> parse_value (Suc n) d s = parse_value n d s"
    "\<And>d s. 2 * length s + 2 \<le> n \<Longrightarrow> parse_elements (Suc n) d s = parse_elements n d s"
    "\<And>d s. 2 * length s + 2 \<le> n \<Longrightarrow> parse_members (Suc n) d s = parse_members n d s" by blast+
  have shorter: "\<And>d s v r. parse_value n d s = Some (v, r) \<Longrightarrow> length r < length s"
    using parse_shorter by blast
  have "parse_value (Suc (Suc n)) d s = parse_value (Suc n) d s" if enough: "2 * length s + 1 \<le> Suc n" for d s
  proof (cases "skip_space s")
    case (Cons c t)
    then have "2 * length t + 2 \<le> n" using skip_space_shorter [OF Cons] enough by simp
    then have "parse_elements (Suc n) (d - 1) t = parse_elements n (d - 1) t" "parse_members (Suc n) (d - 1) t = parse_members n (d - 1) t"
      using IH(2,3) by blast+
    then show ?thesis unfolding parse_rules(1) [of "Suc n"] parse_rules(1) [of n] Cons list.case by (simp only:)
  qed (simp add: parse_rules(1))
  moreover have "parse_elements (Suc (Suc n)) d s = parse_elements (Suc n) d s" if enough: "2 * length s + 2 \<le> Suc n" for d s
  proof -
    have v: "parse_value (Suc n) d s = parse_value n d s" using enough by (intro IH(1)) simp
    have "parse_elements (Suc n) d t = parse_elements n d t"
      if "parse_value n d s = Some (v, r)" "skip_space r = c # t" for v r c t
      using shorter [OF that(1)] skip_space_shorter [OF that(2)] enough by (intro IH(2)) simp
    then show ?thesis
      unfolding parse_rules(2) [of "Suc n"] parse_rules(2) [of n] v by (auto split: option.split list.split)
  qed
  moreover have "parse_members (Suc (Suc n)) d s = parse_members (Suc n) d s" if enough: "2 * length s + 2 \<le> Suc n" for d s
  proof -
    have v: "parse_value (Suc n) d r' = parse_value n d r'"
      if "skip_space s = q # t" "json_unquote t = Some (k, r)" "skip_space r = c # r'" for q t k r c r'
      using skip_space_shorter [OF that(1)] json_unquote_shorter [OF that(2)]
        skip_space_shorter [OF that(3)] enough by (intro IH(1)) simp
    have "parse_members (Suc n) d r3 = parse_members n d r3"
      if "skip_space s = q # t" "json_unquote t = Some (k, r)" "skip_space r = c # r'"
        "parse_value n d r' = Some (v, r2)" "skip_space r2 = c' # r3" for q t k r c r' v r2 c' r3
      using skip_space_shorter [OF that(1)] json_unquote_shorter [OF that(2)]
        skip_space_shorter [OF that(3)] shorter [OF that(4)] skip_space_shorter [OF that(5)] enough by (intro IH(3)) simp
    with v show ?thesis
      unfolding parse_rules(3) [of "Suc n"] parse_rules(3) [of n] by (auto split: option.split list.split)
  qed
  ultimately show ?case by blast
qed simp

text \<open>The fuel of \<open>parse_json\<close> gives the result of any larger amount.\<close>

lemma parse_value_fuel: "2 * length s + 1 \<le> n \<Longrightarrow> parse_value n d s = parse_value (2 * length s + 1) d s"
proof (induction n rule: dec_induct)
  case (step n)
  with parse_more_fuel [of n] show ?case by metis
qed simp

section \<open>Printing and parsing\<close>

text \<open>A value written with some white space in front of every token.\<close>

fun render :: "string \<Rightarrow> json \<Rightarrow> string" where
  "render ws JNull = ws @ ''null''"
| "render ws (JBool b) = ws @ (if b then ''true'' else ''false'')"
| "render ws (JNumber x) = ws @ x"
| "render ws (JString s) = ws @ json_string s"
| "render ws (JArray vs) = ws @ ''['' @ Join (map (render ws) vs) (ws @ '','') @ ws @ '']''"
| "render ws (JObject ms) = ws @ ''{'' @
     Join (map (\<lambda>(k, v). ws @ json_string k @ ws @ '':'' @ render ws v) ms) (ws @ '','') @ ws @ ''}''"

text \<open>The values with a text: numbers of the grammar, and no deeper than the bound.\<close>

fun writable :: "nat \<Rightarrow> json \<Rightarrow> bool" where
  "writable d (JNumber x) \<longleftrightarrow> number_ok x \<and> list_all number_char x"
| "writable d (JArray vs) \<longleftrightarrow> 0 < d \<and> (\<forall>v \<in> set vs. writable (d - 1) v)"
| "writable d (JObject ms) \<longleftrightarrow> 0 < d \<and> (\<forall>(k, v) \<in> set ms. writable (d - 1) v)"
| "writable d _ \<longleftrightarrow> True"

text \<open>A value with the invalid bytes of its strings replaced.\<close>

fun scrub_json :: "json \<Rightarrow> json" where
  "scrub_json (JString s) = JString (scrub s)"
| "scrub_json (JArray vs) = JArray (map scrub_json vs)"
| "scrub_json (JObject ms) = JObject (map (\<lambda>(k, v). (scrub k, scrub_json v)) ms)"
| "scrub_json v = v"

abbreviation scrub_member :: "string \<times> json \<Rightarrow> string \<times> json" where
  "scrub_member \<equiv> \<lambda>(k, v). (scrub k, scrub_json v)"

definition ends_token :: "string \<Rightarrow> bool" where
  "ends_token t \<longleftrightarrow> t = [] \<or> \<not> number_char (hd t)"

text \<open>With enough fuel a parser gives this result.\<close>

definition gives :: "(nat \<Rightarrow> 'a option) \<Rightarrow> 'a \<Rightarrow> bool" where
  "gives p x \<longleftrightarrow> (\<exists>N. \<forall>n \<ge> N. p n = Some x)"

lemma gives_step: "(\<And>n. p (Suc n) = q n) \<Longrightarrow> gives q x \<Longrightarrow> gives p x"
  unfolding gives_def by (metis Suc_le_D Suc_le_mono)

lemma gives_const: "gives (\<lambda>n. Some x) x"
  by (simp add: gives_def)

lemma gives_map: "gives p x \<Longrightarrow> gives (\<lambda>n. map_option f (p n)) (f x)"
  by (auto simp: gives_def)

lemma gives_bind:
  assumes "gives p x" and "gives (q x) y"
  shows "gives (\<lambda>n. case p n of None \<Rightarrow> None | Some v \<Rightarrow> q v n) y"
proof -
  from assms obtain N M where "\<forall>n \<ge> N. p n = Some x" "\<forall>n \<ge> M. q x n = Some y" unfolding gives_def by blast
  then have "\<forall>n \<ge> max N M. (case p n of None \<Rightarrow> None | Some v \<Rightarrow> q v n) = Some y" by simp
  then show ?thesis unfolding gives_def by blast
qed

lemma skip_space_append: "list_all json_space ws \<Longrightarrow> skip_space (ws @ t) = skip_space t"
  unfolding skip_space_def by (rule dropWhile_append2) (simp add: list_all_iff)

lemma skip_space_token: "\<not> json_space c \<Longrightarrow> skip_space (c # t) = c # t"
  by (simp add: skip_space_def)

lemma token_chars [simp]:
  "\<not> json_space dquote" "\<not> json_space (CHR '','')" "\<not> json_space (CHR '':'')" "\<not> json_space (CHR ''['')" "\<not> json_space (CHR '']'')"
  "\<not> json_space (CHR ''{'')" "\<not> json_space (CHR ''}'')" "\<not> json_space (CHR ''n'')" "\<not> json_space (CHR ''t'')" "\<not> json_space (CHR ''f'')"
  by (simp_all add: json_space_def)

lemma number_char_cases: "number_char c \<Longrightarrow> \<not> json_space c \<and> c \<notin> {dquote, CHR ''['', CHR ''{'', CHR ''n'', CHR ''t'', CHR ''f''}"
  by (auto simp: number_char_def json_space_def in_range_def)

lemma ends_token_space: "list_all json_space ws \<Longrightarrow> \<not> number_char c \<Longrightarrow> ends_token (ws @ c # t)"
  by (cases ws) (auto simp: ends_token_def dest: number_char_cases)

lemma parse_number_written:
  assumes "number_ok x" and "list_all number_char x" and "ends_token t"
  shows "parse_number (x @ t) = Some (JNumber x, t)"
proof -
  have "takeWhile number_char (x @ t) = x" "dropWhile number_char (x @ t) = t"
    using assms(2,3) by (induction x; cases t; auto simp: ends_token_def)+
  with assms(1) show ?thesis by (simp add: parse_number_def)
qed

lemma parse_scalar:
  assumes "list_all json_space ws"
  shows "parse_value (Suc n) d (ws @ ''null'' @ t) = Some (JNull, t)"
    "parse_value (Suc n) d (ws @ ''true'' @ t) = Some (JBool True, t)"
    "parse_value (Suc n) d (ws @ ''false'' @ t) = Some (JBool False, t)"
    "parse_value (Suc n) d (ws @ json_string s @ t) = Some (JString (scrub s), t)"
  using assms
  by (simp_all add: parse_rules(1) skip_space_append skip_space_token parse_literal_def HasPrefix_def json_string_def unquote_json_string)

lemma parse_number_value:
  assumes "list_all json_space ws" and "number_ok x" and "list_all number_char x" and "ends_token t"
  shows "parse_value (Suc n) d (ws @ x @ t) = Some (JNumber x, t)"
proof -
  obtain c x' where x: "x = c # x'" using assms(2) by (cases x) (auto simp: number_ok_def)
  have c: "\<not> json_space c" "c \<notin> {dquote, CHR ''['', CHR ''{'', CHR ''n'', CHR ''t'', CHR ''f''}"
    using number_char_cases [of c] assms(3) x by auto
  then have "parse_value (Suc n) d (ws @ c # x' @ t) = parse_number (c # x' @ t)"
    using assms(1) by (simp add: parse_rules(1) skip_space_append skip_space_token)
  then show ?thesis using parse_number_written [OF assms(2-4)] by (simp add: x)
qed

text \<open>The elements of an array and the members of an object, from the second token on.\<close>

lemma parse_elements_step:
  "parse_elements (Suc n) d s = (case parse_value n d s of None \<Rightarrow> None
   | Some x \<Rightarrow> (\<lambda>(v, r) n. case skip_space r of [] \<Rightarrow> None
     | c # t \<Rightarrow> if c = CHR '','' then map_option (apfst (Cons v)) (parse_elements n d t)
         else if c = CHR '']'' then Some ([v], t) else None) x n)"
  by (simp add: parse_rules(2) split: option.split)

lemma parse_members_step:
  assumes "list_all json_space ws"
  shows "parse_members (Suc n) d (ws @ json_string k @ ws @ CHR '':'' # s) = (case parse_value n d s of None \<Rightarrow> None
   | Some x \<Rightarrow> (\<lambda>(v, r) n. case skip_space r of [] \<Rightarrow> None
     | c # t \<Rightarrow> if c = CHR '','' then map_option (apfst (Cons (scrub k, v))) (parse_members n d t)
         else if c = CHR ''}'' then Some ([(scrub k, v)], t) else None) x n)"
  using assms
  by (simp add: parse_rules(3) skip_space_append skip_space_token json_string_def unquote_json_string split: option.split)

lemma ends_token_closing:
  assumes "list_all json_space ws"
  shows "ends_token (ws @ CHR '','' # t)" "ends_token (ws @ CHR '']'' # t)" "ends_token (ws @ CHR ''}'' # t)"
  using assms by (auto intro!: ends_token_space simp: number_char_def in_range_def)

lemma parse_elements_written:
  assumes v: "\<And>v t. v \<in> set vs \<Longrightarrow> ends_token t \<Longrightarrow> gives (\<lambda>n. parse_value n d (render ws v @ t)) (scrub_json v, t)"
    and ws: "list_all json_space ws" and "vs \<noteq> []"
  shows "gives (\<lambda>n. parse_elements n d (Join (map (render ws) vs) (ws @ '','') @ ws @ CHR '']'' # t)) (map scrub_json vs, t)"
  using assms(1,3)
proof (induction vs)
  case (Cons v vs)
  note skip = skip_space_append [OF ws] skip_space_token
  show ?case
  proof (cases vs)
    case Nil
    have "gives (\<lambda>n. parse_value n d (render ws v @ ws @ CHR '']'' # t)) (scrub_json v, ws @ CHR '']'' # t)"
      by (intro Cons.prems(1) ends_token_closing ws) simp
    from gives_step [OF parse_elements_step gives_bind [OF this]] show ?thesis
      by (simp add: Nil skip gives_const)
  next
    case (Cons w us)
    let ?rest = "Join (map (render ws) vs) (ws @ '','') @ ws @ CHR '']'' # t"
    have "gives (\<lambda>n. parse_value n d (render ws v @ ws @ CHR '','' # ?rest)) (scrub_json v, ws @ CHR '','' # ?rest)"
      by (intro Cons.prems(1) ends_token_closing ws) simp
    note bind = gives_step [OF parse_elements_step gives_bind [OF this]]
    have "gives (\<lambda>n. parse_elements n d ?rest) (map scrub_json vs, t)"
      using Cons.prems Cons by (intro Cons.IH) auto
    from bind gives_map [OF this, of "apfst (Cons (scrub_json v))"] show ?thesis
      by (simp add: Cons skip)
  qed
qed simp

abbreviation render_member :: "string \<Rightarrow> string \<times> json \<Rightarrow> string" where
  "render_member ws \<equiv> \<lambda>(k, v). ws @ json_string k @ ws @ '':'' @ render ws v"

lemma parse_members_written:
  assumes "\<And>k v t. (k, v) \<in> set ms \<Longrightarrow> ends_token t \<Longrightarrow> gives (\<lambda>n. parse_value n d (render ws v @ t)) (scrub_json v, t)"
    and ws: "list_all json_space ws" and "ms \<noteq> []"
  shows "gives (\<lambda>n. parse_members n d (Join (map (render_member ws) ms) (ws @ '','') @ ws @ CHR ''}'' # t)) (map scrub_member ms, t)"
  using assms(1,3)
proof (induction ms)
  case (Cons m ms)
  obtain k v where m: "m = (k, v)" by (cases m)
  note skip = skip_space_append [OF ws] skip_space_token
  show ?case
  proof (cases ms)
    case Nil
    have "gives (\<lambda>n. parse_value n d (render ws v @ ws @ CHR ''}'' # t)) (scrub_json v, ws @ CHR ''}'' # t)"
      by (intro Cons.prems(1) [of k] ends_token_closing ws) (simp add: m)
    from gives_step [OF parse_members_step [OF ws, of _ _ k] gives_bind [OF this]] show ?thesis
      by (simp add: Nil skip gives_const m)
  next
    case (Cons m' ms')
    let ?rest = "Join (map (render_member ws) ms) (ws @ '','') @ ws @ CHR ''}'' # t"
    have "gives (\<lambda>n. parse_value n d (render ws v @ ws @ CHR '','' # ?rest)) (scrub_json v, ws @ CHR '','' # ?rest)"
      by (intro Cons.prems(1) [of k] ends_token_closing ws) (simp add: m)
    note bind = gives_step [OF parse_members_step [OF ws, of _ _ k] gives_bind [OF this]]
    have "gives (\<lambda>n. parse_members n d ?rest) (map scrub_member ms, t)"
      using Cons.prems Cons by (intro Cons.IH) auto
    from bind gives_map [OF this, of "apfst (Cons (scrub_member m))"] show ?thesis
      by (simp add: Cons skip m)
  qed
qed simp

text \<open>No value starts with a closing bracket.\<close>

lemma first_token:
  assumes ws: "list_all json_space ws" and "writable d v"
  shows "\<exists>c u. skip_space (render ws v @ t) = c # u \<and> c \<noteq> CHR '']'' \<and> c \<noteq> CHR ''}''"
proof (cases v)
  case (JNumber x)
  then obtain c x' where x: "x = c # x'" "number_char c"
    using assms(2) by (cases x) (auto simp: number_ok_def)
  moreover have "\<not> number_char (CHR '']'')" "\<not> number_char (CHR ''}'')" by (simp_all add: number_char_def in_range_def)
  ultimately have "c \<noteq> CHR '']''" "c \<noteq> CHR ''}''" by blast+
  moreover have "\<not> json_space c" using number_char_cases [OF x(2)] by blast
  ultimately show ?thesis using x by (simp add: JNumber skip_space_append [OF ws] skip_space_token)
next
  case (JBool b)
  then show ?thesis by (cases b) (simp_all add: skip_space_append [OF ws] skip_space_token)
qed (simp_all add: skip_space_append [OF ws] skip_space_token json_string_def)

lemma parse_array:
  assumes "list_all json_space ws" and "0 < d" and "skip_space s = c # u" and "c \<noteq> CHR '']''"
    and "gives (\<lambda>n. parse_elements n (d - 1) s) (vs, t)"
  shows "gives (\<lambda>n. parse_value n d (ws @ CHR ''['' # s)) (JArray vs, t)"
proof -
  have "parse_value (Suc n) d (ws @ CHR ''['' # s) = map_option (apfst JArray) (parse_elements n (d - 1) s)" for n
    using assms(1-4) by (simp add: parse_rules(1) skip_space_append skip_space_token)
  from gives_step [OF this gives_map [OF assms(5)]] show ?thesis by simp
qed

lemma parse_object:
  assumes "list_all json_space ws" and "0 < d" and "skip_space s = c # u" and "c \<noteq> CHR ''}''"
    and "gives (\<lambda>n. parse_members n (d - 1) s) (ms, t)"
  shows "gives (\<lambda>n. parse_value n d (ws @ CHR ''{'' # s)) (JObject ms, t)"
proof -
  have "parse_value (Suc n) d (ws @ CHR ''{'' # s) = map_option (apfst JObject) (parse_members n (d - 1) s)" for n
    using assms(1-4) by (simp add: parse_rules(1) skip_space_append skip_space_token)
  from gives_step [OF this gives_map [OF assms(5)]] show ?thesis by simp
qed

lemma Join_Cons: "\<exists>u. Join (x # xs) sep @ t = x @ u"
  by (cases xs) auto

lemma parse_value_written:
  assumes ws: "list_all json_space ws"
  shows "writable d v \<Longrightarrow> ends_token t \<Longrightarrow> gives (\<lambda>n. parse_value n d (render ws v @ t)) (scrub_json v, t)"
proof (induction v arbitrary: d t)
  case (JNumber x)
  with parse_number_value [OF ws, of x t] show ?case
    by (intro gives_step [OF _ gives_const]) simp
next
  case (JString s)
  then show ?case by (intro gives_step [OF _ gives_const]) (simp add: parse_scalar(4) [OF ws])
next
  case (JArray vs)
  show ?case
  proof (cases vs)
    case Nil
    then show ?thesis using JArray.prems(1)
      by (intro gives_step [OF _ gives_const]) (simp add: parse_rules(1) skip_space_append [OF ws] skip_space_token)
  next
    case (Cons w us)
    let ?s = "Join (map (render ws) vs) (ws @ '','') @ ws @ CHR '']'' # t"
    obtain r where "?s = render ws w @ r"
      using Join_Cons [of "render ws w" "map (render ws) us" "ws @ '',''" "ws @ CHR '']'' # t"] Cons by auto
    moreover have "writable (d - 1) w" using JArray.prems(1) Cons by simp
    ultimately obtain c u where "skip_space ?s = c # u" "c \<noteq> CHR '']''"
      using first_token [OF ws, of "d - 1" w r] by auto
    moreover have "gives (\<lambda>n. parse_elements n (d - 1) ?s) (map scrub_json vs, t)"
      using JArray Cons by (intro parse_elements_written [OF _ ws]) auto
    ultimately show ?thesis
      using parse_array [OF ws, of d ?s] JArray.prems(1) by simp
  qed
next
  case (JObject ms)
  show ?case
  proof (cases ms)
    case Nil
    then show ?thesis using JObject.prems(1)
      by (intro gives_step [OF _ gives_const]) (simp add: parse_rules(1) skip_space_append [OF ws] skip_space_token)
  next
    case (Cons m us)
    let ?s = "Join (map (render_member ws) ms) (ws @ '','') @ ws @ CHR ''}'' # t"
    obtain c u where "skip_space ?s = c # u" "c \<noteq> CHR ''}''"
      using Join_Cons [of "render_member ws m" "map (render_member ws) us" "ws @ '',''" "ws @ CHR ''}'' # t"] Cons
      by (cases m) (auto simp: skip_space_append [OF ws] skip_space_token json_string_def)
    moreover have "gives (\<lambda>n. parse_members n (d - 1) ?s) (map scrub_member ms, t)"
      using JObject Cons by (intro parse_members_written [OF _ ws]) force+
    ultimately show ?thesis
      using parse_object [OF ws, of d ?s] JObject.prems(1) by simp
  qed
qed (use parse_scalar(1-3) [OF ws] in \<open>auto intro!: gives_step [OF _ gives_const]\<close>)

text \<open>
  A text that was written is read back, whatever white space stands around its tokens; only bytes that
  are not UTF-8 change.
\<close>

lemma parse_json_written:
  assumes "list_all json_space ws" and "writable maxNestingDepth v" and "list_all json_space trail"
  shows "parse_json (render ws v @ trail) = Some (scrub_json v)"
proof -
  have "ends_token trail"
    using assms(3) by (cases trail) (auto simp: ends_token_def dest: number_char_cases)
  from parse_value_written [OF assms(1,2) this] obtain N
    where N: "\<And>n. N \<le> n \<Longrightarrow> parse_value n maxNestingDepth (render ws v @ trail) = Some (scrub_json v, trail)"
    unfolding gives_def by blast
  let ?s = "render ws v @ trail"
  have "parse_value (2 * length ?s + 1) maxNestingDepth ?s = Some (scrub_json v, trail)"
    using parse_value_fuel [of ?s "max N (2 * length ?s + 1)" maxNestingDepth] N [of "max N (2 * length ?s + 1)"] by simp
  moreover have "skip_space trail = []"
    using assms(3) by (simp add: skip_space_def dropWhile_eq_Nil_conv list_all_iff)
  ultimately show ?thesis by (simp add: parse_json_def)
qed

section \<open>Storing a value\<close>

text \<open>
  \<open>Unmarshal\<close> checks the syntax of the whole text first. It then stores what fits and reports
  the first value that does not; the callers drop the target on an error, so the first error is the
  result here. The two texts of errors: of the input, and of a value with the field it was meant for.
\<close>

record json_errors =
  syntax_error :: "string \<Rightarrow> go_error"
  type_error :: "json \<Rightarrow> string \<Rightarrow> go_error"

text \<open>
  The field a key belongs to: the field of that very name, or else one that differs in the case of
  its letters only. Two runes outside of ASCII fold to ASCII letters, the Kelvin sign and the long s.
\<close>

definition fold_rune :: "nat \<Rightarrow> nat" where
  "fold_rune r = (if 97 \<le> r \<and> r \<le> 122 then r - 32 else if r = 8490 then 75 else if r = 383 then 83 else r)"

definition folded :: "string \<Rightarrow> nat list" where
  "folded s = map fold_rune (runes s)"

definition lookup_field :: "string list \<Rightarrow> string \<Rightarrow> string option" where
  "lookup_field names key = (if key \<in> set names then Some key else find (\<lambda>name. folded name = folded key) names)"

lemma folded_ascii: "is_ascii s \<Longrightarrow> folded s = map (\<lambda>c. fold_rune (of_char c)) s"
  by (auto simp: folded_def runes_def rune_segments_ascii decode_rune_ascii is_ascii_def)

text \<open>A string leaves its field alone if the value is null.\<close>

definition store_string :: "json_errors \<Rightarrow> string \<Rightarrow> json \<Rightarrow> string \<Rightarrow> go_error + string" where
  "store_string errs field v old = (case v of JString s \<Rightarrow> Inr s | JNull \<Rightarrow> Inr old | _ \<Rightarrow> Inl (type_error errs v field))"

text \<open>An integer of 64 bits: decimal digits with an optional minus sign, in range.\<close>

definition decimal :: "string \<Rightarrow> int" where
  "decimal s = foldl (\<lambda>n c. 10 * n + (of_char c - 48)) 0 s"

definition parse_int64 :: "string \<Rightarrow> int option" where
  "parse_int64 x =
     (let neg = HasPrefix x ''-''; ds = (if neg then tl x else x); i = (if neg then - decimal ds else decimal ds)
      in if ds \<noteq> [] \<and> list_all is_digit ds \<and> - (2 ^ 63) \<le> i \<and> i < 2 ^ 63 then Some i else None)"

definition store_int :: "json_errors \<Rightarrow> string \<Rightarrow> json \<Rightarrow> int \<Rightarrow> go_error + int" where
  "store_int errs field v old = (case v of
     JNumber x \<Rightarrow> (case parse_int64 x of Some i \<Rightarrow> Inr i | None \<Rightarrow> Inl (type_error errs v field))
   | JNull \<Rightarrow> Inr old
   | _ \<Rightarrow> Inl (type_error errs v field))"

text \<open>The members of an object, in order: those without a field are skipped, a later one overwrites.\<close>

fun store_members :: "string list \<Rightarrow> (string \<Rightarrow> json \<Rightarrow> 'a \<Rightarrow> go_error + 'a) \<Rightarrow> (string \<times> json) list \<Rightarrow> 'a \<Rightarrow> go_error + 'a" where
  "store_members names store [] x = Inr x"
| "store_members names store ((k, v) # ms) x =
     (case lookup_field names k of
        None \<Rightarrow> store_members names store ms x
      | Some field \<Rightarrow> (case store field v x of Inl e \<Rightarrow> Inl e | Inr x' \<Rightarrow> store_members names store ms x'))"

definition store_struct :: "json_errors \<Rightarrow> string list \<Rightarrow> (string \<Rightarrow> json \<Rightarrow> 'a \<Rightarrow> go_error + 'a) \<Rightarrow> json \<Rightarrow> 'a \<Rightarrow> go_error + 'a" where
  "store_struct errs names store v x = (case v of
     JObject ms \<Rightarrow> store_members names store ms x
   | JNull \<Rightarrow> Inr x
   | _ \<Rightarrow> Inl (type_error errs v []))"

fun store_elements :: "(json \<Rightarrow> go_error + 'a) \<Rightarrow> json list \<Rightarrow> go_error + 'a list" where
  "store_elements store [] = Inr []"
| "store_elements store (v # vs) = (case store v of Inl e \<Rightarrow> Inl e | Inr x \<Rightarrow> map_sum id (Cons x) (store_elements store vs))"

definition store_slice :: "json_errors \<Rightarrow> (json \<Rightarrow> go_error + 'a) \<Rightarrow> json \<Rightarrow> go_error + 'a list" where
  "store_slice errs store v = (case v of
     JArray vs \<Rightarrow> store_elements store vs
   | JNull \<Rightarrow> Inr []
   | _ \<Rightarrow> Inl (type_error errs v []))"

definition Unmarshal :: "json_errors \<Rightarrow> (json \<Rightarrow> go_error + 'a) \<Rightarrow> string \<Rightarrow> go_error + 'a" where
  "Unmarshal errs store text = (case parse_json text of None \<Rightarrow> Inl (syntax_error errs text) | Some v \<Rightarrow> store v)"

text \<open>A key that is no field of a struct, and what the rest of the members makes of it.\<close>

lemma store_members_append:
  "store_members names store (ms @ ms') x =
     (case store_members names store ms x of Inl e \<Rightarrow> Inl e | Inr x' \<Rightarrow> store_members names store ms' x')"
  by (induction names store ms x rule: store_members.induct) (auto split: option.split sum.split)

lemma store_members_skip:
  "\<forall>(k, v) \<in> set ms. lookup_field names k = None \<Longrightarrow> store_members names store ms x = Inr x"
  by (induction names store ms x rule: store_members.induct) auto

lemma store_elements_all:
  "(\<And>x. x \<in> set xs \<Longrightarrow> store (f x) = Inr (g x)) \<Longrightarrow> store_elements store (map f xs) = Inr (map g xs)"
  by (induction xs) auto

subsection \<open>What a struct of strings gets\<close>

text \<open>
  The string a field ends up with: that of the last member for the field that is no null. An object
  fits if the values for its fields are strings or null.
\<close>

definition last_string :: "string list \<Rightarrow> string \<Rightarrow> (string \<times> json) list \<Rightarrow> string" where
  "last_string names field ms = foldl (\<lambda>old (k, v). case (lookup_field names k = Some field, v) of
     (True, JString s) \<Rightarrow> s | _ \<Rightarrow> old) [] ms"

definition string_or_null :: "json \<Rightarrow> bool" where
  "string_or_null v \<longleftrightarrow> (case v of JString s \<Rightarrow> True | JNull \<Rightarrow> True | _ \<Rightarrow> False)"

definition text_of :: "json \<Rightarrow> string \<Rightarrow> bool" where
  "text_of v text \<longleftrightarrow> writable maxNestingDepth v \<and> scrub_json v = v
     \<and> (\<exists>ws trail. list_all json_space ws \<and> list_all json_space trail \<and> text = render ws v @ trail)"

lemma parse_text_of: "text_of v text \<Longrightarrow> parse_json text = Some v"
  by (auto simp: text_of_def parse_json_written)

lemma last_string_Nil [simp]: "last_string names field [] = []"
  by (simp add: last_string_def)

lemma last_string_snoc:
  "last_string names field (ms @ [(k, v)]) =
     (if lookup_field names k = Some field then (case v of JString s \<Rightarrow> s | _ \<Rightarrow> last_string names field ms)
      else last_string names field ms)"
  by (simp add: last_string_def split: json.split)

lemma store_string_ok: "string_or_null v \<Longrightarrow> store_string errs field v old = Inr (case v of JString s \<Rightarrow> s | _ \<Rightarrow> old)"
  by (auto simp: string_or_null_def store_string_def split: json.splits)

text \<open>
  A struct whose fields are strings holds exactly these: \<open>get\<close> and \<open>set\<close> are its fields.
\<close>

lemma store_members_strings:
  assumes store: "\<And>f v x. f \<in> set names \<Longrightarrow> fit f v \<Longrightarrow> \<exists>x'. store f v x = Inr x'
      \<and> (\<forall>g \<in> G. get g x' = (if g = f then (case v of JString s \<Rightarrow> s | _ \<Rightarrow> get g x) else get g x))"
    and fits: "\<forall>(k, v) \<in> set ms. case lookup_field names k of None \<Rightarrow> True | Some f \<Rightarrow> fit f v"
    and start: "\<forall>g \<in> G. get g x0 = []"
  shows "\<exists>x. store_members names store ms x0 = Inr x \<and> (\<forall>g \<in> G. get g x = last_string names g ms)"
  using fits
proof (induction ms rule: rev_induct)
  case (snoc m ms)
  obtain k v where m: "m = (k, v)" by (cases m)
  from snoc obtain x where x: "store_members names store ms x0 = Inr x" "\<forall>g \<in> G. get g x = last_string names g ms" by auto
  show ?case
  proof (cases "lookup_field names k")
    case None
    with x m show ?thesis by (auto simp: store_members_append last_string_snoc)
  next
    case (Some f)
    then have "f \<in> set names" by (auto simp: lookup_field_def find_Some_iff split: if_splits)
    moreover have "fit f v" using snoc.prems m Some by simp
    ultimately obtain x' where "store f v x = Inr x'"
      "\<forall>g \<in> G. get g x' = (if g = f then (case v of JString s \<Rightarrow> s | _ \<Rightarrow> get g x) else get g x)"
      using store by blast
    with x m Some show ?thesis
      by (auto simp: store_members_append last_string_snoc split: json.splits)
  qed
qed (use start in simp)

lemma lookup_field_exact: "key \<in> set names \<Longrightarrow> lookup_field names key = Some key"
  by (simp add: lookup_field_def)

text \<open>A value of ASCII strings is UTF-8.\<close>

fun ascii_json :: "json \<Rightarrow> bool" where
  "ascii_json (JString s) \<longleftrightarrow> is_ascii s"
| "ascii_json (JArray vs) \<longleftrightarrow> (\<forall>v \<in> set vs. ascii_json v)"
| "ascii_json (JObject ms) \<longleftrightarrow> (\<forall>(k, v) \<in> set ms. is_ascii k \<and> ascii_json v)"
| "ascii_json v \<longleftrightarrow> True"

lemma scrub_ascii_json: "ascii_json v \<Longrightarrow> scrub_json v = v"
proof (induction v)
  case (JObject ms)
  have "scrub_member m = m" if "m \<in> set ms" for m
    using JObject.IH [of m "snd m"] JObject.prems that
    by (cases m) (auto simp: scrub_valid valid_utf8_ascii)
  then show ?case by (simp add: map_idI)
qed (simp_all add: scrub_valid valid_utf8_ascii map_idI)

lemma text_of_compact: "writable maxNestingDepth v \<Longrightarrow> ascii_json v \<Longrightarrow> text_of v (render [] v)"
  unfolding text_of_def by (auto simp: scrub_ascii_json intro!: exI [of _ "[]"])

end
