(* ===== verification/Effects.thy ===== *)
theory Effects
  imports Api_Types Json "HOL-Library.Word" "HOL-Library.Stream"
begin

text \<open>
  The world outside the program and the interfaces between its packages.
  \<open>Sys\<close> holds the primitives of Go's \<open>os\<close>, \<open>os/exec\<close> and \<open>net/http\<close>
  packages and \<open>DockerApiClient\<close> the Docker engine: both are parameters, arbitrary functions
  over an arbitrary world \<open>'w\<close>. \<open>OsCommandRunner\<close>, \<open>Provider\<close> and
  \<open>AuthProvider\<close> are the Go interfaces that the repository itself implements; each has a
  locale with the law its implementations keep.

  The state carries two histories next to the world. \<open>calls\<close> records what the core of the
  program asks of an interface or of the Docker engine, with the outcome; \<open>syscalls\<close> records
  the primitives an implementation uses to answer. \<open>logs\<close> is what \<open>log.Printf\<close> wrote,
  and \<open>rng\<close> the numbers the generator behind \<open>RandEnv\<close> has still to deliver.
\<close>

section \<open>Data crossing the boundary\<close>

record FileInfo =
  fi_Name :: string
  fi_Size :: int
  fi_Mode :: "32 word"

definition ModeDir :: "32 word" where "ModeDir = push_bit 31 1"
definition ModeDevice :: "32 word" where "ModeDevice = push_bit 26 1"
definition ModeCharDevice :: "32 word" where "ModeCharDevice = push_bit 21 1"

record http_request =
  req_Method :: string
  req_URL :: string
  req_Header :: "(string \<times> string) list"

record http_response =
  resp_StatusCode :: int
  resp_Status :: string
  resp_Body :: nat

datatype call =
    CRun "string list" "string outcome"
  | CMkdirAll string nat "unit outcome"
  | CStat string "FileInfo option outcome"
  | CManifest "string outcome"
  | CDisks "string outcome"
  | CToken "string outcome"
  | CExec "string list" "string outcome"
  | CImagePull string string "nat outcome"
  | CReadBody nat "string outcome"
  | CCloseBody nat
  | CContainerList bool "DockerContainer list outcome"
  | CContainerRemove string bool "unit outcome"
  | CContainerCreate DockerConfig DockerHostConfig string "string outcome"
  | CContainerStart string "unit outcome"
  | CWriteFile string string nat "unit outcome"

datatype syscall =
    SExec "string list"
  | SMkdirAll string nat
  | SStat string
  | SHttpDo http_request
  | SReadAll nat
  | SClose nat

record 'w st =
  world :: 'w
  calls :: "call list"
  syscalls :: "syscall list"
  logs :: "string list"
  rng :: "63 word stream"

section \<open>Primitives\<close>

text \<open>
  \<open>CombinedOutput\<close> returns what the command printed next to the error, a missing environment
  variable is the empty string, and \<open>http.NewRequest\<close> only inspects its arguments.
\<close>

record 'w Sys =
  sys_Exec :: "string list \<Rightarrow> 'w \<Rightarrow> (string \<times> go_error option) \<times> 'w"
  sys_MkdirAll :: "string \<Rightarrow> nat \<Rightarrow> 'w \<Rightarrow> go_error option \<times> 'w"
  sys_Stat :: "string \<Rightarrow> 'w \<Rightarrow> (go_error + FileInfo) \<times> 'w"
  sys_Getenv :: "string \<Rightarrow> 'w \<Rightarrow> string"
  sys_Hostname :: "'w \<Rightarrow> go_error + string"
  sys_NewRequest :: "string \<Rightarrow> string \<Rightarrow> go_error + http_request"
  sys_HttpDo :: "http_request \<Rightarrow> 'w \<Rightarrow> (go_error + http_response) \<times> 'w"
  sys_ReadAll :: "nat \<Rightarrow> 'w \<Rightarrow> (go_error + string) \<times> 'w"
  sys_Close :: "nat \<Rightarrow> 'w \<Rightarrow> 'w"
  sys_WriteFile :: "string \<Rightarrow> string \<Rightarrow> nat \<Rightarrow> 'w \<Rightarrow> go_error option \<times> 'w"

text \<open>
  The client of the Docker engine, its context arguments and unset options left out.
  \<open>ImagePull\<close> answers with a reader, which is read and closed through its own methods.
\<close>

record 'w DockerApiClient =
  ImagePull :: "string \<Rightarrow> string \<Rightarrow> 'w \<Rightarrow> (go_error + nat) \<times> 'w"
  Body_ReadAll :: "nat \<Rightarrow> 'w \<Rightarrow> (go_error + string) \<times> 'w"
  Body_Close :: "nat \<Rightarrow> 'w \<Rightarrow> 'w"
  ContainerCreate :: "DockerConfig \<Rightarrow> DockerHostConfig \<Rightarrow> string \<Rightarrow> 'w \<Rightarrow> (go_error + string) \<times> 'w"
  ContainerStart :: "string \<Rightarrow> 'w \<Rightarrow> go_error option \<times> 'w"
  ContainerList :: "bool \<Rightarrow> 'w \<Rightarrow> (go_error + DockerContainer list) \<times> 'w"
  ContainerRemove :: "string \<Rightarrow> bool \<Rightarrow> 'w \<Rightarrow> go_error option \<times> 'w"

definition of_sum :: "go_error + 'a \<Rightarrow> 'a outcome" where
  "of_sum x = (case x of Inl e \<Rightarrow> Err e | Inr v \<Rightarrow> Ok v)"

definition of_err :: "go_error option \<Rightarrow> unit outcome" where
  "of_err x = (case x of None \<Rightarrow> Ok () | Some e \<Rightarrow> Err e)"

lemma of_sum_simps [simp]: "of_sum (Inl e) = Err e" "of_sum (Inr v) = Ok v"
  and of_err_simps [simp]: "of_err None = Ok ()" "of_err (Some e) = Err e"
  by (simp_all add: of_sum_def of_err_def)

text \<open>A primitive run on the world, its answer turned into an outcome.\<close>

definition external :: "('b \<Rightarrow> 'a outcome) \<Rightarrow> ('w \<Rightarrow> 'b \<times> 'w) \<Rightarrow> ('w st, 'a) go" where
  "external answer f = (\<lambda>s. case f (world s) of (b, w) \<Rightarrow> (answer b, s\<lparr>world := w\<rparr>))"

definition syscall :: "syscall \<Rightarrow> ('b \<Rightarrow> 'a outcome) \<Rightarrow> ('w \<Rightarrow> 'b \<times> 'w) \<Rightarrow> ('w st, 'a) go" where
  "syscall ev answer f = (\<lambda>s. external answer f (s\<lparr>syscalls := syscalls s @ [ev]\<rparr>))"

text \<open>An interface call: the operation itself, then its entry in the history.\<close>

definition observe :: "('a outcome \<Rightarrow> call) \<Rightarrow> ('w st, 'a) go \<Rightarrow> ('w st, 'a) go" where
  "observe ev m = (\<lambda>s. case m s of (r, s') \<Rightarrow> (r, s'\<lparr>calls := calls s' @ [ev r]\<rparr>))"

definition log_Printf :: "string \<Rightarrow> ('w st, unit) go" where
  "log_Printf msg = (\<lambda>s. (Ok (), s\<lparr>logs := logs s @ [msg]\<rparr>))"

lemma silent_external [simp, intro]: "silent calls (external answer f)"
  and silent_syscall [simp, intro]: "silent calls (syscall ev answer f)"
  and silent_log [simp, intro]: "silent calls (log_Printf msg)"
  and silent_log_syscalls [simp, intro]: "silent syscalls (log_Printf msg)"
  and silent_external_syscalls [simp, intro]: "silent syscalls (external answer f)"
  by (simp_all add: silent_def external_def syscall_def log_Printf_def split: prod.split)

lemma returns_external: "(\<And>b p. answer b \<noteq> Panic p) \<Longrightarrow> returns (external answer f)"
  and returns_syscall: "(\<And>b p. answer b \<noteq> Panic p) \<Longrightarrow> returns (syscall ev answer f)"
  and returns_log [returns_intros]: "returns (log_Printf msg)"
  by (simp_all add: returns_def external_def syscall_def log_Printf_def split: prod.split)

lemma returns_observe [returns_intros]: "returns m \<Longrightarrow> returns (observe ev m)"
  by (simp add: returns_def observe_def split: prod.split) (metis fst_conv)

lemma no_panic_conversions [simp]: "of_sum x \<noteq> Panic p" "of_err y \<noteq> Panic p"
  by (cases x; cases y; simp)+

lemma log_Printf_ok [simp]: "is_ok (fst (log_Printf msg s))"
  by (simp add: log_Printf_def)

lemma emits_log: "emits calls k S \<Longrightarrow> emits calls (seqE (log_Printf msg) k) S"
  by (rule emits_seq_silent) simp_all

lemma emits_observe: "silent calls m \<Longrightarrow> emits calls (observe ev m) (\<lambda>evs r. evs = [ev r])"
  by (rule emitsI) (auto simp: observe_def silent_def split: prod.splits dest: spec, metis snd_conv)

lemma emits_syscall: "emits syscalls (syscall ev answer f) (\<lambda>evs r. evs = [ev])"
  by (rule emitsI) (simp add: syscall_def external_def split: prod.split)

section \<open>Interfaces implemented in the repository\<close>

text \<open>\<open>OsCommandRunner\<close> of the packages \<open>volumes\<close> and \<open>runtime\<close>.\<close>

record 'w OsCommandRunner =
  Run :: "string list \<Rightarrow> ('w st, string) go"
  MkdirAll :: "string \<Rightarrow> nat \<Rightarrow> ('w st, unit) go"
  Stat :: "string \<Rightarrow> ('w st, FileInfo option) go"

text \<open>\<open>Provider\<close> of the package \<open>metadata\<close>.\<close>

record 'w Provider =
  RetrieveManifest :: "('w st, string) go"
  RetrieveDisksMetadataAsJson :: "('w st, string) go"

text \<open>\<open>AuthProvider\<close> of the package \<open>utils\<close>.\<close>

record 'w AuthProvider =
  RetrieveAuthToken :: "('w st, string) go"

text \<open>
  The law of each interface: an implementation may use primitives and change the world, but it
  does not call back into the core, so the core's own history is its caller's to write. Each
  call of the interface is then exactly one entry.
\<close>

definition call_Run :: "'w OsCommandRunner \<Rightarrow> string list \<Rightarrow> ('w st, string) go" where
  "call_Run r args = observe (CRun args) (Run r args)"

definition call_MkdirAll :: "'w OsCommandRunner \<Rightarrow> string \<Rightarrow> nat \<Rightarrow> ('w st, unit) go" where
  "call_MkdirAll r path perm = observe (CMkdirAll path perm) (MkdirAll r path perm)"

definition call_Stat :: "'w OsCommandRunner \<Rightarrow> string \<Rightarrow> ('w st, FileInfo option) go" where
  "call_Stat r path = observe (CStat path) (Stat r path)"

definition call_Manifest :: "'w Provider \<Rightarrow> ('w st, string) go" where
  "call_Manifest p = observe CManifest (RetrieveManifest p)"

definition call_Disks :: "'w Provider \<Rightarrow> ('w st, string) go" where
  "call_Disks p = observe CDisks (RetrieveDisksMetadataAsJson p)"

definition call_Token :: "'w AuthProvider \<Rightarrow> ('w st, string) go" where
  "call_Token p = observe CToken (RetrieveAuthToken p)"

locale os_command_runner =
  fixes r :: "'w OsCommandRunner"
  assumes Run_silent: "silent calls (Run r args)"
    and MkdirAll_silent: "silent calls (MkdirAll r path perm)"
    and Stat_silent: "silent calls (Stat r path)"
begin

lemma emits_Run: "emits calls (call_Run r args) (\<lambda>evs x. evs = [CRun args x])"
  unfolding call_Run_def by (rule emits_observe) (rule Run_silent)

lemma emits_MkdirAll: "emits calls (call_MkdirAll r path perm) (\<lambda>evs x. evs = [CMkdirAll path perm x])"
  unfolding call_MkdirAll_def by (rule emits_observe) (rule MkdirAll_silent)

lemma emits_Stat: "emits calls (call_Stat r path) (\<lambda>evs x. evs = [CStat path x])"
  unfolding call_Stat_def by (rule emits_observe) (rule Stat_silent)

end

text \<open>
  A runner that answers: it does not panic, and a file it can stat has a \<open>FileInfo\<close>, not nil.
\<close>

locale reliable_runner = os_command_runner +
  assumes Run_returns: "returns (Run r args)"
    and MkdirAll_returns: "returns (MkdirAll r path perm)"
    and Stat_returns: "returns (Stat r path)"
    and Stat_not_nil: "fst (Stat r path s) \<noteq> Ok None"
begin

lemma calls_return [returns_intros]:
  "returns (call_Run r args)" "returns (call_MkdirAll r path perm)" "returns (call_Stat r path)"
  unfolding call_Run_def call_MkdirAll_def call_Stat_def
  by (intro returns_observe Run_returns MkdirAll_returns Stat_returns)+

lemma Stat_info: "call_Stat r path s \<noteq> (Ok None, s')"
  using Stat_not_nil [of path s] by (auto simp: call_Stat_def observe_def split: prod.splits)

end

locale metadata_provider =
  fixes p :: "'w Provider"
  assumes Manifest_silent: "silent calls (RetrieveManifest p)"
    and Disks_silent: "silent calls (RetrieveDisksMetadataAsJson p)"
begin

lemma emits_Manifest: "emits calls (call_Manifest p) (\<lambda>evs x. evs = [CManifest x])"
  unfolding call_Manifest_def by (rule emits_observe) (rule Manifest_silent)

lemma emits_Disks: "emits calls (call_Disks p) (\<lambda>evs x. evs = [CDisks x])"
  unfolding call_Disks_def by (rule emits_observe) (rule Disks_silent)

end

locale reliable_provider = metadata_provider +
  assumes Manifest_returns: "returns (RetrieveManifest p)"
    and Disks_returns: "returns (RetrieveDisksMetadataAsJson p)"
begin

lemma calls_return [returns_intros]: "returns (call_Manifest p)" "returns (call_Disks p)"
  unfolding call_Manifest_def call_Disks_def
  by (intro returns_observe Manifest_returns Disks_returns)+

end

locale auth_provider =
  fixes a :: "'w AuthProvider"
  assumes Token_silent: "silent calls (RetrieveAuthToken a)"
begin

lemma emits_Token: "emits calls (call_Token a) (\<lambda>evs x. evs = [CToken x])"
  unfolding call_Token_def by (rule emits_observe) (rule Token_silent)

end

section \<open>A machine on which everything succeeds\<close>

text \<open>
  The machine the examples run on: commands print nothing, every path is a block device, the host
  uses nf_tables, and every request is answered with status 200 and the metadata of one disk.
\<close>

definition idle_body :: string where
  "idle_body = render [] (JArray [JObject [(''deviceName'', JString ''pd''), (''index'', JNumber ''0''), (''mode'', JString ''READ_WRITE'')]])"

definition idle_errors :: json_errors where
  "idle_errors = \<lparr>syntax_error = (\<lambda>_. ErrorString ''invalid JSON''), type_error = (\<lambda>v f. ErrorString ''wrong type'')\<rparr>"

definition idle_sys :: "unit Sys" where
  "idle_sys = \<lparr>sys_Exec = (\<lambda>args w. (([], None), w)), sys_MkdirAll = (\<lambda>path perm w. (None, w)),
     sys_Stat = (\<lambda>path w. (Inr \<lparr>fi_Name = path, fi_Size = 0, fi_Mode = ModeDevice\<rparr>, w)),
     sys_Getenv = (\<lambda>name w. ''nf_tables''), sys_Hostname = (\<lambda>w. Inr ''vm''),
     sys_NewRequest = (\<lambda>m url. Inr \<lparr>req_Method = m, req_URL = url, req_Header = []\<rparr>),
     sys_HttpDo = (\<lambda>req w. (Inr \<lparr>resp_StatusCode = 200, resp_Status = ''200 OK'', resp_Body = 0\<rparr>, w)),
     sys_ReadAll = (\<lambda>b w. (Inr idle_body, w)), sys_Close = (\<lambda>b w. w), sys_WriteFile = (\<lambda>f d perm w. (None, w))\<rparr>"

text \<open>A Docker engine on which everything succeeds, with one container of an earlier run.\<close>

definition idle_docker :: "unit DockerApiClient" where
  "idle_docker = \<lparr>ImagePull = (\<lambda>ref a w. (Inr 7, w)), Body_ReadAll = (\<lambda>b w. (Inr [], w)), Body_Close = (\<lambda>b w. w),
     ContainerCreate = (\<lambda>cfg hc name w. (Inr ''new'', w)), ContainerStart = (\<lambda>i w. (None, w)),
     ContainerList = (\<lambda>q w. (Inr [\<lparr>dc_ID = ''old'', dc_Names = [''/klt-c-abcd'']\<rparr>], w)),
     ContainerRemove = (\<lambda>i q w. (None, w))\<rparr>"

text \<open>The state after some more calls.\<close>

definition ran :: "call list \<Rightarrow> syscall list \<Rightarrow> string list \<Rightarrow> 'w st \<Rightarrow> 'w st" where
  "ran cs ss ls s = s\<lparr>calls := calls s @ cs, syscalls := syscalls s @ ss, logs := logs s @ ls\<rparr>"

lemma ran_simps [simp]:
  "ran [] [] [] s = s" "ran cs ss ls (ran cs' ss' ls' s) = ran (cs' @ cs) (ss' @ ss) (ls' @ ls) s"
  "calls (ran cs ss ls s) = calls s @ cs" "world (ran cs ss ls s) = world s" "rng (ran cs ss ls s) = rng s"
  by (simp_all add: ran_def)

lemma idle_log [idle_run]: "log_Printf msg s = (Ok (), ran [] [] [msg] s)"
  by (simp add: log_Printf_def ran_def)

definition idle_state :: "unit st" where
  "idle_state = \<lparr>world = (), calls = [], syscalls = [], logs = [], rng = sconst 0\<rparr>"

text \<open>Runs that succeed while the generator goes on delivering zeros.\<close>

definition succeeds :: "('w st, 'a) go \<Rightarrow> 'a \<Rightarrow> bool" where
  "succeeds m v \<longleftrightarrow> (\<forall>s. rng s = sconst 0 \<longrightarrow> (\<exists>s'. m s = (Ok v, s') \<and> rng s' = sconst 0))"

lemma succeedsI: "(\<And>s. rng s = sconst 0 \<Longrightarrow> \<exists>s'. m s = (Ok v, s') \<and> rng s' = rng s) \<Longrightarrow> succeeds m v"
  by (simp add: succeeds_def)

lemma succeeds_idle: "succeeds m v \<Longrightarrow> \<exists>s'. m idle_state = (Ok v, s')"
  by (simp add: succeeds_def) (metis idle_state_def st.select_convs(5))

lemma succeeds_handle: "succeeds m v \<Longrightarrow> succeeds (k v) w \<Longrightarrow> succeeds (handleE m h k) w"
  unfolding succeeds_def handleE_def by (metis (no_types, lifting) case_prod_conv outcome.simps(10))

lemma succeeds_bind: "succeeds m v \<Longrightarrow> succeeds (k v) w \<Longrightarrow> succeeds (bindE m k) w"
  and succeeds_seq: "succeeds m v \<Longrightarrow> succeeds k' w \<Longrightarrow> succeeds (seqE m k') w"
  and succeeds_return: "succeeds (returnE v) v"
  and succeeds_log: "succeeds (log_Printf msg) ()"
  by (auto simp: bindE_def seqE_def intro: succeeds_handle, auto simp: succeeds_def log_Printf_def)

lemmas succeeds_rules = succeeds_handle succeeds_bind succeeds_seq succeeds_return succeeds_log

end
