(* ===== verification/Go_Maps.thy ===== *)
theory Go_Maps
  imports Prelude "HOL-Library.AList" "HOL-Library.Multiset"
begin

text \<open>
  Go maps with string keys. The interface the program uses (make, index with the comma-ok form,
  assign, range) is the locale \<open>go_map\<close>; lemmas on loops that fill a map are proved there
  once and hold for the association lists the model uses, through the interpretation \<open>amap\<close>.
  The order in which \<open>range\<close> visits the keys is not specified by Go: it is a parameter,
  a function that permutes the list of keys.
\<close>

section \<open>The interface\<close>

locale go_map =
  fixes make :: "'m"
    and get :: "'m \<Rightarrow> string \<Rightarrow> 'v option"
    and put :: "string \<Rightarrow> 'v \<Rightarrow> 'm \<Rightarrow> 'm"
    and keys :: "'m \<Rightarrow> string list"
    and invar :: "'m \<Rightarrow> bool"
  assumes get_make: "get make k = None"
    and get_put: "get (put k v m) k' = (if k' = k then Some v else get m k')"
    and set_keys: "set (keys m) = {k. get m k \<noteq> None}"
    and invar_make: "invar make"
    and invar_put: "invar m \<Longrightarrow> invar (put k v m)"
    and distinct_keys: "invar m \<Longrightarrow> distinct (keys m)"
begin

lemmas map_laws = get_make get_put set_keys invar_make invar_put distinct_keys

text \<open>A loop of assignments: the last assignment to a key wins.\<close>

lemma get_fill:
  "get (foldl (\<lambda>m x. put (f x) (g x) m) m xs) k =
     (case map_of (rev (map (\<lambda>x. (f x, g x)) xs)) k of None \<Rightarrow> get m k | Some v \<Rightarrow> Some v)"
proof (induction xs rule: rev_induct)
  case (snoc x xs)
  then show ?case by (simp add: get_put)
qed simp

lemma invar_fill: "invar m \<Longrightarrow> invar (foldl (\<lambda>m x. put (f x) (g x) m) m xs)"
  by (induction xs arbitrary: m) (simp_all add: invar_put)

lemma keys_fill: "set (keys (foldl (\<lambda>m x. put (f x) (g x) m) m xs)) = set (keys m) \<union> f ` set xs"
  by (induction xs rule: rev_induct) (auto simp: set_keys get_put)

text \<open>A loop that updates the entries of keys already present.\<close>

lemma get_update_loop:
  assumes "\<forall>x \<in> set xs. get m (f x) \<noteq> None"
  shows "get (foldl (\<lambda>m x. put (f x) (h x (the (get m (f x)))) m) m xs) k =
     map_option (\<lambda>v. foldl (\<lambda>v x. h x v) v (filter (\<lambda>x. f x = k) xs)) (get m k)"
  using assms
proof (induction xs rule: rev_induct)
  case Nil
  then show ?case by (simp add: option.map_ident)
next
  case (snoc x xs)
  let ?loop = "foldl (\<lambda>m x. put (f x) (h x (the (get m (f x)))) m) m xs"
  have loop: "get ?loop k = map_option (\<lambda>v. foldl (\<lambda>v x. h x v) v (filter (\<lambda>x. f x = k) xs)) (get m k)"
    using snoc by simp
  show ?case
  proof (cases "f x = k")
    case True
    then obtain v where "get m k = Some v" using snoc.prems by auto
    with True loop show ?thesis by (simp add: get_put)
  next
    case False
    with loop show ?thesis by (simp add: get_put)
  qed
qed

end

section \<open>Association lists\<close>

type_synonym 'v go_map = "(string \<times> 'v) list"

definition map_make :: "'v go_map" where
  "map_make = []"

definition map_get :: "'v go_map \<Rightarrow> string \<Rightarrow> 'v option" where
  "map_get m k = map_of m k"

definition map_put :: "string \<Rightarrow> 'v \<Rightarrow> 'v go_map \<Rightarrow> 'v go_map" where
  "map_put k v m = AList.update k v m"

definition map_keys :: "'v go_map \<Rightarrow> string list" where
  "map_keys m = map fst m"

definition map_invar :: "'v go_map \<Rightarrow> bool" where
  "map_invar m \<longleftrightarrow> distinct (map fst m)"

interpretation amap: go_map map_make map_get map_put map_keys map_invar
proof unfold_locales
  fix m :: "'a go_map" and k k' v
  show "map_get map_make k = (None :: 'a option)" by (simp add: map_get_def map_make_def)
  show "map_get (map_put k v m) k' = (if k' = k then Some v else map_get m k')"
    by (simp add: map_get_def map_put_def update_conv')
  show "set (map_keys m) = {k. map_get m k \<noteq> None}"
    by (auto simp: map_keys_def map_get_def map_of_eq_None_iff)
  show "map_invar (map_make :: 'a go_map)" by (simp add: map_invar_def map_make_def)
  show "map_invar m \<Longrightarrow> map_invar (map_put k v m)"
    by (simp add: map_invar_def map_put_def distinct_update)
  show "map_invar m \<Longrightarrow> distinct (map_keys m)" by (simp add: map_invar_def map_keys_def)
qed

section \<open>Ranging over a map\<close>

type_synonym map_order = "string list \<Rightarrow> string list"

definition valid_order :: "map_order \<Rightarrow> bool" where
  "valid_order ord \<longleftrightarrow> (\<forall>ks. mset (ord ks) = mset ks)"

definition map_range :: "map_order \<Rightarrow> 'v go_map \<Rightarrow> (string \<times> 'v) list" where
  "map_range ord m = map (\<lambda>k. (k, the (map_get m k))) (ord (map_keys m))"

lemma valid_order_set: "valid_order ord \<Longrightarrow> set (ord ks) = set ks"
  unfolding valid_order_def by (metis set_mset_mset)

lemma valid_order_distinct: "valid_order ord \<Longrightarrow> distinct (ord ks) = distinct ks"
  unfolding valid_order_def by (metis mset_eq_imp_distinct_iff)

lemma valid_order_Nil: "valid_order ord \<Longrightarrow> ord [] = []"
  unfolding valid_order_def by (metis mset_zero_iff)

lemma valid_order_id: "valid_order (\<lambda>ks. ks)"
  by (simp add: valid_order_def)

lemma set_map_range:
  assumes "valid_order ord"
  shows "set (map_range ord m) = {(k, v). map_get m k = Some v}"
  using amap.set_keys [of m] by (force simp: map_range_def valid_order_set [OF assms])

lemma distinct_map_range: "valid_order ord \<Longrightarrow> map_invar m \<Longrightarrow> distinct (map fst (map_range ord m))"
  by (simp add: map_range_def comp_def valid_order_distinct amap.distinct_keys)

end
