(* ===== verification/Command_Runner.thy ===== *)
theory Command_Runner
  imports Effects Go_Maps
begin

text \<open>
  The package \<open>command\<close>: \<open>Runner\<close> executes commands and file operations on the
  machine, \<open>MockRunner\<close> answers from tables and counts. Both implement
  \<open>OsCommandRunner\<close> and keep its law.
\<close>

section \<open>Runner\<close>

definition runner_Run :: "'w Sys \<Rightarrow> string list \<Rightarrow> ('w st, string) go" where
  "runner_Run sys commandAndArgs =
     (if commandAndArgs = [] then throwE (ErrorString ''No command provided.'')
      else bindE (syscall (SExec commandAndArgs) Ok (sys_Exec sys commandAndArgs))
        (\<lambda>(outputString, err). case err of
            Some e \<Rightarrow>
              (let errorString = Error e;
                   errorString = (if outputString \<noteq> [] then errorString @ '', details: '' @ outputString else errorString)
               in throwE (ErrorString (''Failed to execute command '' @ fmt_slice commandAndArgs @ '': '' @ errorString)))
          | None \<Rightarrow> returnE outputString))"

definition runner_MkdirAll :: "'w Sys \<Rightarrow> string \<Rightarrow> nat \<Rightarrow> ('w st, unit) go" where
  "runner_MkdirAll sys path perm = syscall (SMkdirAll path perm) of_err (sys_MkdirAll sys path perm)"

definition runner_Stat :: "'w Sys \<Rightarrow> string \<Rightarrow> ('w st, FileInfo option) go" where
  "runner_Stat sys name = syscall (SStat name) (\<lambda>x. of_sum (map_sum id Some x)) (sys_Stat sys name)"

definition commandRunner :: "'w Sys \<Rightarrow> 'w OsCommandRunner" where
  "commandRunner sys = \<lparr>Run = runner_Run sys, MkdirAll = runner_MkdirAll sys, Stat = runner_Stat sys\<rparr>"

lemma commandRunner_simps [simp]:
  "Run (commandRunner sys) = runner_Run sys"
  "MkdirAll (commandRunner sys) = runner_MkdirAll sys"
  "Stat (commandRunner sys) = runner_Stat sys"
  by (simp_all add: commandRunner_def)

lemma silent_runner_Run: "silent calls (runner_Run sys args)"
  unfolding runner_Run_def bindE_def
  by (auto intro!: silent_handle simp: Let_def split: option.split)

lemma returns_runner_Run: "returns (runner_Run sys args)"
  unfolding runner_Run_def
  by (auto intro!: returns_intros returns_syscall simp: Let_def split: option.split)

interpretation runner: reliable_runner "commandRunner sys" for sys :: "'w Sys"
proof unfold_locales
  fix args path perm s
  show "silent calls (Run (commandRunner sys) args)" by (simp add: silent_runner_Run)
  show "silent calls (MkdirAll (commandRunner sys) path perm)" by (simp add: runner_MkdirAll_def)
  show "silent calls (Stat (commandRunner sys) path)" by (simp add: runner_Stat_def)
  show "returns (Run (commandRunner sys) args)" by (simp add: returns_runner_Run)
  show "returns (MkdirAll (commandRunner sys) path perm)" by (simp add: runner_MkdirAll_def returns_syscall)
  show "returns (Stat (commandRunner sys) path)" by (simp add: runner_Stat_def returns_syscall)
  show "fst (Stat (commandRunner sys) path s) \<noteq> Ok None"
    by (cases "fst (sys_Stat sys path (world s))")
      (auto simp: runner_Stat_def syscall_def external_def split: prod.split)
qed

text \<open>
  What a caller of \<open>Runner.Run\<close> can rely on: without a command nothing is executed; otherwise
  exactly this command line is, once, and the result is its output, or an error that names the
  command line, the failure and the output.
\<close>

definition run_outcome :: "string list \<Rightarrow> string \<Rightarrow> go_error option \<Rightarrow> string outcome" where
  "run_outcome args out err = (case err of None \<Rightarrow> Ok out
     | Some e \<Rightarrow> Err (ErrorString (''Failed to execute command '' @ fmt_slice args @ '': '' @ Error e
         @ (if out = [] then [] else '', details: '' @ out))))"

lemma runner_Run_exec:
  assumes "args \<noteq> []" and "sys_Exec sys args (world s) = ((out, err), w)"
  shows "runner_Run sys args s =
    (run_outcome args out err, s\<lparr>world := w, syscalls := syscalls s @ [SExec args]\<rparr>)"
  using assms
  by (simp add: runner_Run_def bindE_def handleE_def syscall_def external_def run_outcome_def
      throwE_def returnE_def split: option.split)

lemma runner_Run_empty: "runner_Run sys [] s = (Err (ErrorString ''No command provided.''), s)"
  by (simp add: runner_Run_def)

lemma idle_runner [idle_run]:
  "call_Run (commandRunner idle_sys) (c # args) s = (Ok [], ran [CRun (c # args) (Ok [])] [SExec (c # args)] [] s)"
  "call_MkdirAll (commandRunner idle_sys) path perm s = (Ok (), ran [CMkdirAll path perm (Ok ())] [SMkdirAll path perm] [] s)"
  "call_Stat (commandRunner idle_sys) path s =
     (let info = Some \<lparr>fi_Name = path, fi_Size = 0, fi_Mode = ModeDevice\<rparr>
      in (Ok info, ran [CStat path (Ok info)] [SStat path] [] s))"
  by (simp_all add: call_Run_def call_MkdirAll_def call_Stat_def observe_def runner_Run_exec runner_MkdirAll_def
      runner_Stat_def syscall_def external_def idle_sys_def ran_def run_outcome_def Let_def)

section \<open>MockRunner\<close>

record MockCommand =
  callCount :: nat
  returnedOutput :: string
  returnedError :: "go_error option"

record MockRunner =
  FailOnUnexpectedCalls :: bool
  commands :: "MockCommand go_map"
  statFiles :: "FileInfo go_map"
  expectedMkdirAlls :: "bool go_map"

definition NewMockRunner :: MockRunner where
  "NewMockRunner = \<lparr>FailOnUnexpectedCalls = True, commands = map_make, statFiles = map_make,
     expectedMkdirAlls = map_make\<rparr>"

text \<open>Indexing a Go map with a missing key gives the zero value.\<close>

definition mock_command :: "MockRunner \<Rightarrow> string \<Rightarrow> MockCommand" where
  "mock_command m c = (case map_get (commands m) c of Some info \<Rightarrow> info
     | None \<Rightarrow> \<lparr>callCount = 0, returnedOutput = [], returnedError = None\<rparr>)"

definition incrementCallCount :: "MockRunner \<Rightarrow> string \<Rightarrow> MockRunner" where
  "incrementCallCount m c =
     (let commandInfo = mock_command m c
      in m\<lparr>commands := map_put c (commandInfo\<lparr>callCount := callCount commandInfo + 1\<rparr>) (commands m)\<rparr>)"

text \<open>\<open>t.Fatal\<close> ends the goroutine by \<open>runtime.Goexit\<close>.\<close>

definition mock_Run :: "string list \<Rightarrow> (MockRunner st, string) go" where
  "mock_Run commandAndArgs s =
     (let commandString = Join commandAndArgs '' ''; m = world s
      in if map_get (commands m) commandString = None \<and> FailOnUnexpectedCalls m
         then (Panic (Goexit (''Unexpected os command called: '' @ commandString)), s)
         else let m' = incrementCallCount m commandString; info = mock_command m' commandString
              in (case returnedError info of None \<Rightarrow> Ok (returnedOutput info) | Some e \<Rightarrow> Err e,
                  s\<lparr>world := m'\<rparr>))"

definition mock_MkdirAll :: "string \<Rightarrow> nat \<Rightarrow> (MockRunner st, unit) go" where
  "mock_MkdirAll path perm s =
     (let m = world s
      in if map_get (expectedMkdirAlls m) path = None \<and> FailOnUnexpectedCalls m
         then (Err (ErrorString (''MkdirAll() called on unexpected path: '' @ path)), s)
         else (Ok (), s\<lparr>world := m\<lparr>expectedMkdirAlls := map_put path True (expectedMkdirAlls m)\<rparr>\<rparr>))"

definition mock_Stat :: "string \<Rightarrow> (MockRunner st, FileInfo option) go" where
  "mock_Stat path s =
     (let m = world s; fileInfo = map_get (statFiles m) path
      in if fileInfo = None \<and> FailOnUnexpectedCalls m
         then (Err (ErrorString (''MockRunner.Stat(): No such file or directory: '' @ path)), s)
         else (Ok fileInfo, s))"

definition mockRunner :: "MockRunner OsCommandRunner" where
  "mockRunner = \<lparr>Run = mock_Run, MkdirAll = mock_MkdirAll, Stat = mock_Stat\<rparr>"

definition OutputOnCall :: "string \<Rightarrow> string \<Rightarrow> MockRunner \<Rightarrow> MockRunner" where
  "OutputOnCall commandAndArgs output m = m\<lparr>commands := map_put commandAndArgs
     \<lparr>callCount = 0, returnedOutput = output, returnedError = None\<rparr> (commands m)\<rparr>"

definition ErrorOnCall :: "string \<Rightarrow> go_error \<Rightarrow> MockRunner \<Rightarrow> MockRunner" where
  "ErrorOnCall commandAndArgs err m = m\<lparr>commands := map_put commandAndArgs
     \<lparr>callCount = 0, returnedOutput = [], returnedError = Some err\<rparr> (commands m)\<rparr>"

definition RegisterMkdirAll :: "string \<Rightarrow> MockRunner \<Rightarrow> MockRunner" where
  "RegisterMkdirAll path m = m\<lparr>expectedMkdirAlls := map_put path False (expectedMkdirAlls m)\<rparr>"

definition RegisterDeviceForStat :: "string \<Rightarrow> MockRunner \<Rightarrow> MockRunner" where
  "RegisterDeviceForStat path m = m\<lparr>statFiles := map_put path
     \<lparr>fi_Name = path, fi_Size = 0, fi_Mode = ModeDevice\<rparr> (statFiles m)\<rparr>"

definition RegisterDirectoryForStat :: "string \<Rightarrow> MockRunner \<Rightarrow> MockRunner" where
  "RegisterDirectoryForStat path m = m\<lparr>statFiles := map_put path
     \<lparr>fi_Name = path, fi_Size = 0, fi_Mode = ModeDir\<rparr> (statFiles m)\<rparr>"

text \<open>An assertion passes (\<open>None\<close>) or ends the test with a message.\<close>

definition AssertCalled :: "string \<Rightarrow> MockRunner \<Rightarrow> string option" where
  "AssertCalled commandAndArgs m =
     (case map_get (commands m) commandAndArgs of
        None \<Rightarrow> Some (''Expected os command not called: '' @ commandAndArgs)
      | Some command \<Rightarrow> if callCount command = 0
          then Some (''Expected os command not called: '' @ commandAndArgs) else None)"

definition AssertAllCalled :: "map_order \<Rightarrow> MockRunner \<Rightarrow> string option" where
  "AssertAllCalled ord m =
     (case find (\<lambda>(c, command). callCount command = 0) (map_range ord (commands m)) of
        Some (c, _) \<Rightarrow> Some (''Expected os command not called: '' @ c)
      | None \<Rightarrow> (case find (\<lambda>(path, called). \<not> called) (map_range ord (expectedMkdirAlls m)) of
          Some (path, _) \<Rightarrow> Some (''Expected os.MkdirAll() not called: '' @ path)
        | None \<Rightarrow> None))"

lemma mockRunner_simps [simp]:
  "Run mockRunner = mock_Run" "MkdirAll mockRunner = mock_MkdirAll" "Stat mockRunner = mock_Stat"
  by (simp_all add: mockRunner_def)

interpretation mock: os_command_runner mockRunner
  by unfold_locales
    (simp_all add: silent_def mock_Run_def mock_MkdirAll_def mock_Stat_def Let_def)

lemma mock_command_increment:
  "mock_command (incrementCallCount m c) d =
     (let info = mock_command m d in if d = c then info\<lparr>callCount := callCount info + 1\<rparr> else info)"
  by (simp add: incrementCallCount_def mock_command_def Let_def amap.get_put)

lemma AssertAllCalled_iff:
  assumes "valid_order ord"
  shows "AssertAllCalled ord m = None \<longleftrightarrow>
    (\<forall>c command. map_get (commands m) c = Some command \<longrightarrow> 0 < callCount command) \<and>
    (\<forall>path called. map_get (expectedMkdirAlls m) path = Some called \<longrightarrow> called)"
proof -
  have "AssertAllCalled ord m = None \<longleftrightarrow>
      find (\<lambda>(c, command). callCount command = 0) (map_range ord (commands m)) = None \<and>
      find (\<lambda>(path, called). \<not> called) (map_range ord (expectedMkdirAlls m)) = None"
    by (simp add: AssertAllCalled_def split: option.split)
  then show ?thesis
    by (auto simp: find_None_iff set_map_range [OF assms])
qed

end
