(* ===== verification/Metadata.thy ===== *)
theory Metadata
  imports Effects
begin

text \<open>
  The package \<open>metadata\<close>: the provider that asks the metadata server over HTTP, and the stub
  that answers from two strings.
\<close>

definition METADATA_SERVER_URL :: string where
  "METADATA_SERVER_URL = ''http://metadata.google.internal/computeMetadata/v1/''"

definition CONTAINER_DECLARATION_METADATA :: string where
  "CONTAINER_DECLARATION_METADATA = ''instance/attributes/gce-container-declaration''"

definition DISKS_METADATA_WITH_RECURSION :: string where
  "DISKS_METADATA_WITH_RECURSION = ''instance/disks/?recursive=true''"

definition Header_Add :: "string \<Rightarrow> string \<Rightarrow> http_request \<Rightarrow> http_request" where
  "Header_Add k v req = req\<lparr>req_Header := req_Header req @ [(k, v)]\<rparr>"

definition http_Do :: "'w Sys \<Rightarrow> http_request \<Rightarrow> ('w st, http_response) go" where
  "http_Do sys req = syscall (SHttpDo req) of_sum (sys_HttpDo sys req)"

definition io_ReadAll :: "'w Sys \<Rightarrow> nat \<Rightarrow> ('w st, string) go" where
  "io_ReadAll sys body = syscall (SReadAll body) of_sum (sys_ReadAll sys body)"

definition body_Close :: "'w Sys \<Rightarrow> nat \<Rightarrow> ('w st, unit) go" where
  "body_Close sys body = syscall (SClose body) Ok (\<lambda>w. ((), sys_Close sys body w))"

definition queryMetadataServer :: "'w Sys \<Rightarrow> string \<Rightarrow> ('w st, string) go" where
  "queryMetadataServer sys partialUrl =
     (let metadataPath = METADATA_SERVER_URL @ partialUrl
      in case sys_NewRequest sys ''GET'' metadataPath of
           Inl err \<Rightarrow> throwE err
         | Inr request \<Rightarrow>
             (let request = Header_Add ''Metadata-Flavor'' ''Google'' request
              in bindE (http_Do sys request) (\<lambda>resp.
                 deferE
                   (if 400 \<le> resp_StatusCode resp
                    then throwE (ErrorString (''Failed metadata request: ('' @ resp_Status resp @ '').'' @ [newline]))
                    else io_ReadAll sys (resp_Body resp))
                   (body_Close sys (resp_Body resp)))))"

definition defaultProvider :: "'w Sys \<Rightarrow> 'w Provider" where
  "defaultProvider sys =
     \<lparr>RetrieveManifest = queryMetadataServer sys CONTAINER_DECLARATION_METADATA,
      RetrieveDisksMetadataAsJson = queryMetadataServer sys DISKS_METADATA_WITH_RECURSION\<rparr>"

record ProviderStub =
  stub_Manifest :: string
  stub_DiskMetadataJson :: string

definition providerStub :: "ProviderStub \<Rightarrow> 'w Provider" where
  "providerStub stub =
     \<lparr>RetrieveManifest = returnE (stub_Manifest stub),
      RetrieveDisksMetadataAsJson = returnE (stub_DiskMetadataJson stub)\<rparr>"

lemma silent_http [simp]: "silent calls (http_Do sys req)" "silent calls (io_ReadAll sys b)" "silent calls (body_Close sys b)"
  by (simp_all add: http_Do_def io_ReadAll_def body_Close_def)

lemma silent_query: "silent calls (queryMetadataServer sys url)"
  unfolding queryMetadataServer_def bindE_def
  by (auto intro!: silent_handle silent_defer simp: Let_def split: sum.split)

lemma returns_http [returns_intros]: "returns (http_Do sys req)" "returns (io_ReadAll sys b)" "returns (body_Close sys b)"
  by (simp_all add: http_Do_def io_ReadAll_def body_Close_def returns_syscall)

lemma returns_query: "returns (queryMetadataServer sys url)"
  unfolding queryMetadataServer_def Let_def
  by (cases "sys_NewRequest sys ''GET'' (METADATA_SERVER_URL @ url)") (auto intro!: returns_intros)

interpretation default_provider: reliable_provider "defaultProvider sys" for sys :: "'w Sys"
  by unfold_locales (simp_all add: defaultProvider_def silent_query returns_query)

interpretation stub_provider: reliable_provider "providerStub stub" for stub
  by unfold_locales (simp_all add: providerStub_def)

section \<open>The exchange with the server\<close>

text \<open>
  \<open>http_exchange req evs r\<close>: at most one request is sent, it is \<open>req\<close>, and the body of
  every response is closed once, after it was read if the status says so.
\<close>

inductive http_exchange :: "http_request \<Rightarrow> syscall list \<Rightarrow> string outcome \<Rightarrow> bool" for req where
  no_response: "http_exchange req [SHttpDo req] (Err e)"
| bad_status: "400 \<le> resp_StatusCode (resp :: http_response) \<Longrightarrow> http_exchange req [SHttpDo req, SClose (resp_Body resp)] (Err e)"
| read_body: "resp_StatusCode (resp :: http_response) < 400 \<Longrightarrow> r = Ok body \<or> r = Err e \<Longrightarrow>
    http_exchange req [SHttpDo req, SReadAll (resp_Body resp), SClose (resp_Body resp)] r"

inductive_cases http_exchange_Ok: "http_exchange req evs (Ok v)"

lemma of_sum_cases: "of_sum x = Ok v \<Longrightarrow> x = Inr v" "of_sum x = Err e \<Longrightarrow> x = Inl e" "of_sum x \<noteq> Panic p"
  by (cases x; simp)+

text \<open>
  The shape both clients of the metadata server have: send, defer the close, check the status, read,
  and go on without further calls.
\<close>

definition then_decode :: "'a outcome \<Rightarrow> ('a \<Rightarrow> 'b outcome) \<Rightarrow> 'b outcome" where
  "then_decode x f = (case x of Ok v \<Rightarrow> f v | Err e \<Rightarrow> Err e | Panic p \<Rightarrow> Panic p)"

lemma then_decode_simps [simp]: "then_decode (Ok v) f = f v" "then_decode (Err e) f = Err e" "then_decode x Ok = x"
  by (simp_all add: then_decode_def split: outcome.split)

lemma exchange_pattern:
  assumes k: "\<And>body s. k body s = (f body, s)" and f: "\<And>body p. f body \<noteq> Panic p"
  shows "emits syscalls (bindE (http_Do sys req) (\<lambda>resp. deferE
      (if 400 \<le> resp_StatusCode resp then throwE (h resp) else bindE (io_ReadAll sys (resp_Body resp)) k)
      (body_Close sys (resp_Body resp))))
    (\<lambda>evs r. \<exists>x. http_exchange req evs x \<and> r = then_decode x f)"
    (is "emits _ ?m ?S")
proof (rule emitsI)
  fix s :: "'a st"
  note run_defs = bindE_def handleE_def http_Do_def syscall_def external_def throwE_def deferE_def body_Close_def io_ReadAll_def k
  obtain x w where x: "sys_HttpDo sys req (world s) = (x, w)" by fastforce
  show "\<exists>evs. syscalls (snd (?m s)) = syscalls s @ evs \<and> ?S evs (fst (?m s))"
  proof (cases x)
    case (Inl e)
    with x show ?thesis
      by (intro exI [of _ "[SHttpDo req]"] conjI exI [of _ "Err e"]) (auto simp: run_defs intro: no_response)
  next
    case (Inr resp)
    obtain y w' where y: "sys_ReadAll sys (resp_Body resp) w = (y, w')" by fastforce
    show ?thesis
    proof (cases "400 \<le> resp_StatusCode resp")
      case True
      with Inr x show ?thesis
        by (intro exI [of _ "[SHttpDo req, SClose (resp_Body resp)]"] conjI exI [of _ "Err (h resp)"])
          (auto simp: run_defs intro: bad_status)
    next
      case False
      then have "http_exchange req [SHttpDo req, SReadAll (resp_Body resp), SClose (resp_Body resp)] (of_sum y)"
        by (cases y) (auto intro: read_body)
      moreover have "?m s = (then_decode (of_sum y) f, s\<lparr>world := sys_Close sys (resp_Body resp) w',
          syscalls := syscalls s @ [SHttpDo req, SReadAll (resp_Body resp), SClose (resp_Body resp)]\<rparr>)"
      proof (cases y)
        case (Inl e)
        with False \<open>x = Inr resp\<close> x y f show ?thesis by (simp add: run_defs)
      next
        case (Inr body)
        with False \<open>x = Inr resp\<close> x y f show ?thesis by (simp add: run_defs)
      qed
      ultimately show ?thesis by auto
    qed
  qed
qed

lemma query_exchange:
  assumes "sys_NewRequest sys ''GET'' (METADATA_SERVER_URL @ url) = Inr request"
  shows "emits syscalls (queryMetadataServer sys url)
    (http_exchange (Header_Add ''Metadata-Flavor'' ''Google'' request))"
proof -
  let ?req = "Header_Add ''Metadata-Flavor'' ''Google'' request"
  have m: "bindE (io_ReadAll sys b) returnE = io_ReadAll sys b" for b
    by (auto simp: bindE_def handleE_def throwE_def returnE_def fun_eq_iff split: prod.split outcome.split)
  have eq: "queryMetadataServer sys url = bindE (http_Do sys ?req) (\<lambda>resp. deferE
      (if 400 \<le> resp_StatusCode resp
       then throwE (ErrorString (''Failed metadata request: ('' @ resp_Status resp @ '').'' @ [newline]))
       else bindE (io_ReadAll sys (resp_Body resp)) returnE)
      (body_Close sys (resp_Body resp)))"
    unfolding m by (simp only: queryMetadataServer_def assms Let_def sum.case)
  show ?thesis
    unfolding eq by (rule emits_weaken [OF exchange_pattern [where f = Ok]]) auto
qed

definition idle_exchange :: "string \<Rightarrow> syscall list" where
  "idle_exchange url = [SHttpDo \<lparr>req_Method = ''GET'', req_URL = url, req_Header = [(''Metadata-Flavor'', ''Google'')]\<rparr>,
     SReadAll 0, SClose 0]"

lemma idle_provider [idle_run]:
  "call_Manifest (defaultProvider idle_sys) s =
     (Ok idle_body, ran [CManifest (Ok idle_body)] (idle_exchange (METADATA_SERVER_URL @ CONTAINER_DECLARATION_METADATA)) [] s)"
  "call_Disks (defaultProvider idle_sys) s =
     (Ok idle_body, ran [CDisks (Ok idle_body)] (idle_exchange (METADATA_SERVER_URL @ DISKS_METADATA_WITH_RECURSION)) [] s)"
  by (cases s; simp add: call_Manifest_def call_Disks_def observe_def defaultProvider_def queryMetadataServer_def Let_def Header_Add_def
      idle_sys_def bindE_def handleE_def deferE_def http_Do_def io_ReadAll_def body_Close_def syscall_def external_def
      ran_def idle_exchange_def)+

section \<open>Properties\<close>



end
