(* ===== verification/Mounts.thy ===== *)
theory Mounts
  imports Command_Runner Metadata
begin

text \<open>
  The mounts of \<open>volumes/volumes.go\<close>: the environment and the flags, the \<open>mount\<close>
  descriptor, the parser of \<open>/proc/mounts\<close>, and the operations that mount, list and unmount.
  The parser is shown to invert the escaping it documents, and unmounting is described by the exact
  sequence of its commands.
\<close>

section \<open>Environment\<close>

text \<open>
  An element of the disk metadata, of which only two fields are read. \<open>json.Unmarshal\<close> into a
  list of these is the field \<open>env_ParseDisks\<close>. The environment also holds the values of the two flags the
  package reads and the order in which \<open>range\<close> visits a map.
\<close>

record DiskEntry =
  DeviceName :: string
  Mode :: string

record 'w Env =
  env_Runner :: "'w OsCommandRunner"
  env_Metadata :: "'w Provider"
  env_ParseDisks :: "string \<Rightarrow> go_error + DiskEntry list"
  env_mountedVolumesPathPrefix :: string
  env_hostProcPath :: string
  env_Order :: map_order

definition default_mountedVolumesPathPrefix :: string where
  "default_mountedVolumesPathPrefix = ''/mnt/disks/gce-containers-mounts''"

definition default_hostProcPath :: string where
  "default_hostProcPath = ''/host_proc''"

record volume_flags =
  mountedVolumesPathPrefixFlag :: string
  hostProcPathFlag :: string

definition default_volume_flags :: volume_flags where
  "default_volume_flags = \<lparr>mountedVolumesPathPrefixFlag = default_mountedVolumesPathPrefix, hostProcPathFlag = default_hostProcPath\<rparr>"

definition volumesEnv :: "volume_flags \<Rightarrow> 'w OsCommandRunner \<Rightarrow> 'w Provider \<Rightarrow> (string \<Rightarrow> go_error + DiskEntry list) \<Rightarrow> map_order \<Rightarrow> 'w Env" where
  "volumesEnv vflags r p parse ord = \<lparr>env_Runner = r, env_Metadata = p, env_ParseDisks = parse,
     env_mountedVolumesPathPrefix = mountedVolumesPathPrefixFlag vflags,
     env_hostProcPath = hostProcPathFlag vflags, env_Order = ord\<rparr>"

lemma volumesEnv_simps [simp]:
  "env_Runner (volumesEnv vflags r p parse ord) = r"
  "env_Metadata (volumesEnv vflags r p parse ord) = p"
  "env_ParseDisks (volumesEnv vflags r p parse ord) = parse"
  "env_mountedVolumesPathPrefix (volumesEnv vflags r p parse ord) = mountedVolumesPathPrefixFlag vflags"
  "env_hostProcPath (volumesEnv vflags r p parse ord) = hostProcPathFlag vflags"
  "env_Order (volumesEnv vflags r p parse ord) = ord"
  by (simp_all add: volumesEnv_def)

definition wrapToEnterHostMountNamespace :: "'w Env \<Rightarrow> string list \<Rightarrow> string list" where
  "wrapToEnterHostMountNamespace env origCommandline =
     (if env_hostProcPath env = [] then origCommandline
      else (let nsenterCommandline = [''nsenter'', ''--mount='' @ env_hostProcPath env @ ''/1/ns/mnt'', ''--'']
            in nsenterCommandline @ origCommandline))"

lemma wrap_inject [simp]:
  "wrapToEnterHostMountNamespace env a = wrapToEnterHostMountNamespace env b \<longleftrightarrow> a = b"
  by (simp add: wrapToEnterHostMountNamespace_def)

section \<open>Mount descriptors\<close>

record mount =
  mnt_device :: string
  mnt_mountPoint :: string
  mnt_fsType :: string
  mnt_options :: string

type_synonym mountOption = "mount \<Rightarrow> mount"

definition newMount :: "string \<Rightarrow> string \<Rightarrow> string \<Rightarrow> mountOption list \<Rightarrow> mount" where
  "newMount device mountPoint fsType opts =
     foldl (\<lambda>mnt opt. opt mnt)
       \<lparr>mnt_device = device, mnt_mountPoint = mountPoint, mnt_fsType = fsType, mnt_options = []\<rparr> opts"

definition readOnly :: "bool \<Rightarrow> mountOption" where
  "readOnly ro mnt =
     (let opt = (if ro then ''ro'' else ''rw'')
      in if mnt_options mnt = [] then mnt\<lparr>mnt_options := opt\<rparr>
         else mnt\<lparr>mnt_options := mnt_options mnt @ '','' @ opt\<rparr>)"

section \<open>Parsing\<close>

definition octal_space :: string where "octal_space = [backslash, CHR ''0'', CHR ''4'', CHR ''0'']"
definition octal_tab :: string where "octal_tab = [backslash, CHR ''0'', CHR ''1'', CHR ''1'']"
definition octal_newline :: string where "octal_newline = [backslash, CHR ''0'', CHR ''1'', CHR ''2'']"
definition octal_backslash :: string where "octal_backslash = [backslash, CHR ''1'', CHR ''3'', CHR ''4'']"

definition unescape :: "string \<Rightarrow> string" where
  "unescape = Replace
     [(octal_space, [CHR 0x20]), (octal_tab, [CHR 0x09]),
      (octal_newline, [CHR 0x0A]), (octal_backslash, [CHR 0x5C])]"

definition parseMountEntry :: "string \<Rightarrow> go_error + mount option" where
  "parseMountEntry entry =
     (if HasPrefix entry ''#'' then Inr None
      else (let parts = Split entry (CHR '' '')
            in if length parts < 4
               then Inl (ErrorString ''invalid format: expected at least 4 space-separated columns'')
               else Inr (Some \<lparr>mnt_device = unescape (parts ! 0), mnt_mountPoint = unescape (parts ! 1),
                  mnt_fsType = unescape (parts ! 2), mnt_options = unescape (parts ! 3)\<rparr>)))"

subsection \<open>The codec of the fields\<close>

text \<open>
  A field of a line is written with an encoding that hides the separator and is read back with the
  decoder: a line of fields then splits back into its fields.
\<close>

locale field_codec =
  fixes enc dec :: "string \<Rightarrow> string" and sep :: char
  assumes dec_enc: "dec (enc x) = x"
    and sep_free: "sep \<notin> set (enc x)"
begin

lemma fields_roundtrip: "xs \<noteq> [] \<Longrightarrow> map dec (Split (Join (map enc xs) [sep]) sep) = xs"
  by (subst Split_Join) (auto simp: sep_free dec_enc comp_def)

lemma enc_inj: "enc x = enc y \<Longrightarrow> x = y"
  by (metis dec_enc)

end

text \<open>The encoding the comment of \<open>parseMountEntry\<close> describes.\<close>

definition escape_char :: "char \<Rightarrow> string" where
  "escape_char c = (if c = CHR 0x20 then octal_space else if c = CHR 0x09 then octal_tab
     else if c = CHR 0x0A then octal_newline else if c = CHR 0x5C then octal_backslash else [c])"

definition escape :: "string \<Rightarrow> string" where
  "escape s = concat (map escape_char s)"

definition render_mount :: "mount \<Rightarrow> string" where
  "render_mount m = Join (map escape [mnt_device m, mnt_mountPoint m, mnt_fsType m, mnt_options m]) '' '' @ '' 0 0''"

lemmas octal_defs = octal_space_def octal_tab_def octal_newline_def octal_backslash_def

lemma unescape_escape: "unescape (escape s) = s"
  by (induction s) (simp_all add: unescape_def escape_def escape_char_def octal_defs HasPrefix_def)

lemma escape_char_free: "CHR 0x20 \<notin> set (escape_char c) \<and> CHR 0x09 \<notin> set (escape_char c) \<and> CHR 0x0A \<notin> set (escape_char c)"
  by (simp add: escape_char_def octal_defs)

lemma escape_free: "CHR 0x20 \<notin> set (escape s)" "CHR 0x09 \<notin> set (escape s)" "CHR 0x0A \<notin> set (escape s)"
  using escape_char_free by (auto simp: escape_def)

interpretation mount_field: field_codec escape unescape "CHR 0x20"
  by unfold_locales (simp_all add: unescape_escape escape_free)

lemma hash_escape: "HasPrefix (escape s @ t) ''#'' \<longleftrightarrow> (if s = [] then HasPrefix t ''#'' else hd s = CHR ''#'')"
  by (cases s) (auto simp: escape_def escape_char_def octal_defs HasPrefix_def)

lemma Join_append_field: "xs \<noteq> [] \<Longrightarrow> Join xs sep @ sep @ t = Join (xs @ [t]) sep"
  by (induction xs sep rule: Join.induct) auto

lemma render_mount_split:
  "Split (render_mount m) (CHR '' '') =
     map escape [mnt_device m, mnt_mountPoint m, mnt_fsType m, mnt_options m] @ [''0'', ''0'']"
proof -
  let ?fs = "map escape [mnt_device m, mnt_mountPoint m, mnt_fsType m, mnt_options m] @ [''0'', ''0'']"
  have "render_mount m = Join ?fs '' ''"
    by (simp add: render_mount_def)
  then show ?thesis
    by (simp only:) (rule Split_Join, auto simp: escape_free)
qed

text \<open>C14. \<open>parseMountEntry\<close> inverts the escaping of \<open>/proc/mounts\<close>: a line that renders a
  mount (four escaped columns and the two numbers behind them) parses back to exactly that mount,
  whatever bytes its columns hold, unless the line reads as a comment.\<close>

theorem parseMountEntry_roundtrip:
  assumes "mnt_device m \<noteq> []" and "hd (mnt_device m) \<noteq> CHR ''#''"
  shows "parseMountEntry (render_mount m) = Inr (Some m)"
proof -
  have "\<not> HasPrefix (render_mount m) ''#''"
    using assms by (simp add: render_mount_def hash_escape)
  then show ?thesis
    by (simp add: parseMountEntry_def render_mount_split mount_field.dec_enc)
qed

theorem parseMountEntry_roundtrip_witness:
  "parseMountEntry (render_mount \<lparr>mnt_device = ''/dev/a b'', mnt_mountPoint = [CHR ''/'', CHR 0x09, CHR 0x5C],
     mnt_fsType = ''ext4'', mnt_options = ''ro''\<rparr>) =
   Inr (Some \<lparr>mnt_device = ''/dev/a b'', mnt_mountPoint = [CHR ''/'', CHR 0x09, CHR 0x5C],
     mnt_fsType = ''ext4'', mnt_options = ''ro''\<rparr>)"
  by (rule parseMountEntry_roundtrip) simp_all

section \<open>Mounting, listing and unmounting\<close>

definition run_cmd :: "'w Env \<Rightarrow> string list \<Rightarrow> ('w st, string) go" where
  "run_cmd env args = call_Run (env_Runner env) args"

definition mountDevice :: "'w Env \<Rightarrow> mount \<Rightarrow> ('w st, unit) go" where
  "mountDevice env mnt =
     seqE (log_Printf (''Attempting to mount device '' @ mnt_device mnt @ '' at '' @ mnt_mountPoint mnt @ ''.''))
       (let mountCommandline = [''mount''];
            mountCommandline = (if 0 < length (mnt_options mnt) then mountCommandline @ [''-o'', mnt_options mnt] else mountCommandline);
            mountCommandline = mountCommandline @ [''-t'', mnt_fsType mnt, mnt_device mnt, mnt_mountPoint mnt]
        in handleE (run_cmd env (wrapToEnterHostMountNamespace env mountCommandline))
             (\<lambda>err. throwE (ErrorString (''Failed to mount '' @ mnt_device mnt @ '' at '' @ mnt_mountPoint mnt @ '': '' @ Error err)))
             (\<lambda>_. returnE ()))"

definition unmountDevice :: "'w Env \<Rightarrow> mount \<Rightarrow> ('w st, unit) go" where
  "unmountDevice env mnt =
     seqE (log_Printf (''Attempting to unmount device '' @ mnt_device mnt @ '' at '' @ mnt_mountPoint mnt @ ''.''))
       (handleE (run_cmd env (wrapToEnterHostMountNamespace env [''umount'', mnt_mountPoint mnt]))
         (\<lambda>err. throwE (ErrorString (''Failed to unmount '' @ mnt_device mnt @ '' at '' @ mnt_mountPoint mnt @ '': '' @ Error err)))
         (\<lambda>_. returnE ()))"

text \<open>The loop of \<open>existingMounts\<close> over the lines the scanner delivers.\<close>

fun konlet_mounts :: "string \<Rightarrow> string list \<Rightarrow> mount list" where
  "konlet_mounts pre [] = []"
| "konlet_mounts pre (line # lines) =
     (case parseMountEntry line of
        Inr (Some mnt) \<Rightarrow> if HasPrefix (mnt_mountPoint mnt) pre
          then mnt # konlet_mounts pre lines else konlet_mounts pre lines
      | _ \<Rightarrow> konlet_mounts pre lines)"

definition existingMounts :: "'w Env \<Rightarrow> ('w st, mount list) go" where
  "existingMounts env =
     handleE (run_cmd env (wrapToEnterHostMountNamespace env [''cat'', ''/proc/mounts'']))
       throwE
       (\<lambda>file. returnE (konlet_mounts (env_mountedVolumesPathPrefix env) (fst (scan_lines file))))"

definition UnmountExistingVolumes :: "'w Env \<Rightarrow> ('w st, unit) go" where
  "UnmountExistingVolumes env =
     handleE (existingMounts env)
       (\<lambda>err. throwE (ErrorString (''failed to list existing volumes: '' @ Error err)))
       (\<lambda>mounts. bindE
          (foldE (\<lambda>buf mnt. handleE (unmountDevice env mnt)
               (\<lambda>err. returnE (buf @ Error err @ [newline]))
               (\<lambda>_. seqE (log_Printf (''Unmounted '' @ mnt_mountPoint mnt)) (returnE buf))) [] mounts)
          (\<lambda>buf. if 0 < length buf then throwE (ErrorString (take (length buf - 1) buf)) else returnE ()))"

subsection \<open>Their commands\<close>

definition mount_command :: "'w Env \<Rightarrow> mount \<Rightarrow> string list" where
  "mount_command env mnt = wrapToEnterHostMountNamespace env
     (''mount'' # (if mnt_options mnt = [] then [] else [''-o'', mnt_options mnt])
       @ [''-t'', mnt_fsType mnt, mnt_device mnt, mnt_mountPoint mnt])"

definition umount_command :: "'w Env \<Rightarrow> mount \<Rightarrow> string list" where
  "umount_command env mnt = wrapToEnterHostMountNamespace env [''umount'', mnt_mountPoint mnt]"

definition list_command :: "'w Env \<Rightarrow> string list" where
  "list_command env = wrapToEnterHostMountNamespace env [''cat'', ''/proc/mounts'']"

definition mount_error :: "mount \<Rightarrow> go_error \<Rightarrow> go_error" where
  "mount_error mnt e = ErrorString (''Failed to mount '' @ mnt_device mnt @ '' at '' @ mnt_mountPoint mnt @ '': '' @ Error e)"

definition umount_error :: "mount \<Rightarrow> go_error \<Rightarrow> go_error" where
  "umount_error mnt e = ErrorString (''Failed to unmount '' @ mnt_device mnt @ '' at '' @ mnt_mountPoint mnt @ '': '' @ Error e)"

text \<open>The messages of the unmounts that failed, in order.\<close>

definition failed_unmounts :: "(mount \<times> string outcome) list \<Rightarrow> string list" where
  "failed_unmounts runs = concat (map (\<lambda>(mnt, x). case x of Err e \<Rightarrow> [Error (umount_error mnt e)] | _ \<Rightarrow> []) runs)"

text \<open>
  \<open>unmount_trace env evs r\<close>: the mount table is listed; if that works, every mount of the table
  under the prefix is unmounted once, in order, whatever the earlier ones answered, and the messages
  of all failures, one per line, are the error.
\<close>

definition unmount_trace :: "'w Env \<Rightarrow> call list \<Rightarrow> unit outcome \<Rightarrow> bool" where
  "unmount_trace env evs r \<longleftrightarrow>
     (\<exists>e. evs = [CRun (list_command env) (Err e)] \<and> r = Err (ErrorString (''failed to list existing volumes: '' @ Error e)))
   \<or> (\<exists>file outs. let ms = konlet_mounts (env_mountedVolumesPathPrefix env) (fst (scan_lines file)) in
        length outs = length ms
      \<and> evs = CRun (list_command env) (Ok file) # map2 (\<lambda>mnt x. CRun (umount_command env mnt) x) ms outs
      \<and> r = (case failed_unmounts (zip ms outs) of [] \<Rightarrow> Ok () | msgs \<Rightarrow> Err (ErrorString (Join msgs [newline]))))"

locale volumes_env =
  runner: os_command_runner "env_Runner env" + provider: metadata_provider "env_Metadata env"
  for env :: "'w Env"
begin

lemma emits_run: "emits calls (run_cmd env args) (\<lambda>evs x. evs = [CRun args x])"
  unfolding run_cmd_def by (rule runner.emits_Run)

lemma emits_mountDevice:
  "emits calls (mountDevice env mnt)
     (\<lambda>evs r. \<exists>x. evs = [CRun (mount_command env mnt) x] \<and> r = conv (mount_error mnt) (\<lambda>_. ()) x)"
proof -
  have "mountDevice env mnt =
      seqE (log_Printf (''Attempting to mount device '' @ mnt_device mnt @ '' at '' @ mnt_mountPoint mnt @ ''.''))
        (handleE (run_cmd env (mount_command env mnt)) (\<lambda>e. throwE (mount_error mnt e)) (\<lambda>_. returnE ()))"
    by (simp add: mountDevice_def mount_command_def mount_error_def Let_def)
  then show ?thesis
    using emits_log [OF emits_conv [OF emits_run]] by simp
qed

lemma emits_unmountDevice:
  "emits calls (unmountDevice env mnt)
     (\<lambda>evs r. \<exists>x. evs = [CRun (umount_command env mnt) x] \<and> r = conv (umount_error mnt) (\<lambda>_. ()) x)"
  unfolding unmountDevice_def umount_command_def [symmetric] umount_error_def [symmetric]
  by (rule emits_log [OF emits_conv [OF emits_run]])

lemma emits_existingMounts:
  "emits calls (existingMounts env)
     (\<lambda>evs r. \<exists>x. evs = [CRun (list_command env) x] \<and>
       r = conv id (\<lambda>file. konlet_mounts (env_mountedVolumesPathPrefix env) (fst (scan_lines file))) x)"
  using emits_conv [OF emits_run, of "list_command env" id "\<lambda>file. konlet_mounts (env_mountedVolumesPathPrefix env) (fst (scan_lines file))"]
  by (simp add: existingMounts_def list_command_def id_def)

text \<open>The loop body of \<open>UnmountExistingVolumes\<close>: it never fails, it collects.\<close>

lemma emits_unmount_body:
  "emits calls (handleE (unmountDevice env mnt) (\<lambda>err. returnE (buf @ Error err @ [newline]))
       (\<lambda>_. seqE (log_Printf msg) (returnE buf)))
     (\<lambda>evs r. \<exists>x. evs = [CRun (umount_command env mnt) x] \<and>
        (case x of Panic p \<Rightarrow> r = Panic p
         | _ \<Rightarrow> r = Ok (buf @ concat (map (\<lambda>m. m @ [newline]) (failed_unmounts [(mnt, x)])))))"
  (is "emits calls _ ?S")
proof (rule emits_handle [OF emits_unmountDevice])
  fix v :: unit and evs0
  assume "\<exists>x. evs0 = [CRun (umount_command env mnt) x] \<and> Ok v = conv (umount_error mnt) (\<lambda>_. ()) x"
  then obtain x where "evs0 = [CRun (umount_command env mnt) (Ok x)]"
    by (auto simp: conv_eqs)
  then show "emits calls (seqE (log_Printf msg) (returnE buf)) (\<lambda>evs. ?S (evs0 @ evs))"
    by (intro emits_log emits_return) (auto simp: failed_unmounts_def)
next
  fix e evs0
  assume "\<exists>x. evs0 = [CRun (umount_command env mnt) x] \<and> Err e = conv (umount_error mnt) (\<lambda>_. ()) x"
  then obtain e' where "evs0 = [CRun (umount_command env mnt) (Err e')]" "e = umount_error mnt e'"
    by (auto simp: conv_eqs)
  then show "emits calls (returnE (buf @ Error e @ [newline])) (\<lambda>evs. ?S (evs0 @ evs))"
    by (intro emits_return) (auto simp: failed_unmounts_def)
next
  fix evs p
  assume "\<exists>x. evs = [CRun (umount_command env mnt) x] \<and> Panic p = conv (umount_error mnt) (\<lambda>_. ()) x"
  then show "?S evs (Panic p)" by (auto simp: conv_eqs)
qed

lemma failed_unmounts_Cons:
  "failed_unmounts ((mnt, x) # runs) = failed_unmounts [(mnt, x)] @ failed_unmounts runs"
  by (simp add: failed_unmounts_def)

lemma emits_unmount_loop:
  "emits calls (foldE (\<lambda>buf mnt. handleE (unmountDevice env mnt) (\<lambda>err. returnE (buf @ Error err @ [newline]))
       (\<lambda>_. seqE (log_Printf (msg mnt)) (returnE buf))) buf ms)
     (\<lambda>evs r. (\<forall>e. r \<noteq> Err e) \<and> (is_ok r \<longrightarrow> (\<exists>outs. length outs = length ms
        \<and> evs = map2 (\<lambda>mnt x. CRun (umount_command env mnt) x) ms outs
        \<and> r = Ok (buf @ concat (map (\<lambda>m. m @ [newline]) (failed_unmounts (zip ms outs)))))))"
proof (induction ms arbitrary: buf)
  case Nil
  show ?case unfolding foldE.simps by (intro emits_return) (simp add: failed_unmounts_def)
next
  case (Cons mnt ms)
  show ?case
    unfolding foldE.simps
  proof (rule emits_handle [OF emits_unmount_body])
    fix buf' evs0
    assume "\<exists>x. evs0 = [CRun (umount_command env mnt) x] \<and> (case x of Panic p \<Rightarrow> Ok buf' = Panic p
         | _ \<Rightarrow> Ok buf' = Ok (buf @ concat (map (\<lambda>m. m @ [newline]) (failed_unmounts [(mnt, x)]))))"
    then obtain x where x: "evs0 = [CRun (umount_command env mnt) x]"
      and "case x of Panic p \<Rightarrow> Ok buf' = Panic p
         | _ \<Rightarrow> Ok buf' = Ok (buf @ concat (map (\<lambda>m. m @ [newline]) (failed_unmounts [(mnt, x)])))" by blast
    then have buf': "buf' = buf @ concat (map (\<lambda>m. m @ [newline]) (failed_unmounts [(mnt, x)]))"
      by (cases x) simp_all
    show "emits calls (foldE (\<lambda>buf mnt. handleE (unmountDevice env mnt) (\<lambda>err. returnE (buf @ Error err @ [newline]))
       (\<lambda>_. seqE (log_Printf (msg mnt)) (returnE buf))) buf' ms)
      (\<lambda>evs r. (\<forall>e. r \<noteq> Err e) \<and> (is_ok r \<longrightarrow> (\<exists>outs. length outs = length (mnt # ms)
        \<and> evs0 @ evs = map2 (\<lambda>mnt x. CRun (umount_command env mnt) x) (mnt # ms) outs
        \<and> r = Ok (buf @ concat (map (\<lambda>m. m @ [newline]) (failed_unmounts (zip (mnt # ms) outs)))))))"
    proof (rule emits_weaken [OF Cons.IH [of buf']], elim conjE, intro conjI impI)
      fix evs r
      assume "is_ok r" and "is_ok r \<longrightarrow> (\<exists>outs. length outs = length ms
        \<and> evs = map2 (\<lambda>mnt x. CRun (umount_command env mnt) x) ms outs
        \<and> r = Ok (buf' @ concat (map (\<lambda>m. m @ [newline]) (failed_unmounts (zip ms outs)))))"
      then obtain outs where "length outs = length ms" "evs = map2 (\<lambda>mnt x. CRun (umount_command env mnt) x) ms outs"
        "r = Ok (buf' @ concat (map (\<lambda>m. m @ [newline]) (failed_unmounts (zip ms outs))))" by blast
      with x buf' show "\<exists>outs. length outs = length (mnt # ms)
        \<and> evs0 @ evs = map2 (\<lambda>mnt x. CRun (umount_command env mnt) x) (mnt # ms) outs
        \<and> r = Ok (buf @ concat (map (\<lambda>m. m @ [newline]) (failed_unmounts (zip (mnt # ms) outs))))"
        by (intro exI [of _ "x # outs"]) (simp add: failed_unmounts_Cons [of mnt x "zip ms outs"])
    qed simp
  qed (auto split: outcome.splits intro: emits_throw)
qed

end

lemma butlast_messages:
  "msgs \<noteq> [] \<Longrightarrow> take (length (concat (map (\<lambda>m. m @ [c]) msgs)) - 1) (concat (map (\<lambda>m. m @ [c]) msgs)) = Join msgs [c]"
proof (induction msgs "[c]" rule: Join.induct)
  case (3 x y ys)
  then show ?case by (simp add: take_Cons')
qed simp_all

locale reliable_env = volumes_env env +
  runner: reliable_runner "env_Runner env" + provider: reliable_provider "env_Metadata env"
  for env :: "'w Env"
begin

lemma returns_run [returns_intros]: "returns (run_cmd env args)"
  unfolding run_cmd_def by (rule runner.calls_return)

lemma returns_mounts [returns_intros]:
  "returns (mountDevice env mnt)" "returns (unmountDevice env mnt)" "returns (existingMounts env)"
  unfolding mountDevice_def unmountDevice_def existingMounts_def Let_def
  by (intro returns_intros)+

lemma returns_UnmountExistingVolumes [returns_intros]: "returns (UnmountExistingVolumes env)"
  unfolding UnmountExistingVolumes_def by (intro returns_intros) (simp add: returns_intros)

lemma unmounts: "emits calls (UnmountExistingVolumes env) (unmount_trace env)"
  unfolding UnmountExistingVolumes_def
proof (rule emits_handle [OF emits_returns [OF emits_existingMounts returns_mounts(3)]])
  fix e evs0
  assume "(\<exists>x. evs0 = [CRun (list_command env) x] \<and> Err e = conv id (\<lambda>file. konlet_mounts
      (env_mountedVolumesPathPrefix env) (fst (scan_lines file))) x) \<and> (\<forall>p. Err e \<noteq> Panic p)"
  then have "evs0 = [CRun (list_command env) (Err e)]" by (auto simp: conv_eqs)
  then show "emits calls (throwE (ErrorString (''failed to list existing volumes: '' @ Error e)))
      (\<lambda>evs. unmount_trace env (evs0 @ evs))"
    by (intro emits_throw) (simp add: unmount_trace_def)
next
  fix ms evs0
  assume "(\<exists>x. evs0 = [CRun (list_command env) x] \<and> Ok ms = conv id (\<lambda>file. konlet_mounts
      (env_mountedVolumesPathPrefix env) (fst (scan_lines file))) x) \<and> (\<forall>p. Ok ms \<noteq> Panic p)"
  then obtain content where table: "evs0 = [CRun (list_command env) (Ok content)]"
    "ms = konlet_mounts (env_mountedVolumesPathPrefix env) (fst (scan_lines content))"
    by (auto simp: conv_eqs)
  show "emits calls (bindE (foldE (\<lambda>buf mnt. handleE (unmountDevice env mnt)
         (\<lambda>err. returnE (buf @ Error err @ [newline]))
         (\<lambda>_. seqE (log_Printf (''Unmounted '' @ mnt_mountPoint mnt)) (returnE buf))) [] ms)
       (\<lambda>buf. if 0 < length buf then throwE (ErrorString (take (length buf - 1) buf)) else returnE ()))
     (\<lambda>evs. unmount_trace env (evs0 @ evs))"
    unfolding bindE_def
  proof (rule emits_handle [OF emits_returns [OF emits_unmount_loop]])
    show "returns (foldE (\<lambda>buf mnt. handleE (unmountDevice env mnt) (\<lambda>err. returnE (buf @ Error err @ [newline]))
         (\<lambda>_. seqE (log_Printf (''Unmounted '' @ mnt_mountPoint mnt)) (returnE buf))) [] ms)"
      by (intro returns_intros)
  next
    fix buf evs1
    assume "((\<forall>e. Ok buf \<noteq> Err e) \<and> (is_ok (Ok buf) \<longrightarrow> (\<exists>outs. length outs = length ms
        \<and> evs1 = map2 (\<lambda>mnt x. CRun (umount_command env mnt) x) ms outs
        \<and> Ok buf = Ok ([] @ concat (map (\<lambda>m. m @ [newline]) (failed_unmounts (zip ms outs))))))) \<and> (\<forall>p. Ok buf \<noteq> Panic p)"
    then obtain outs where outs: "length outs = length ms"
      "evs1 = map2 (\<lambda>mnt x. CRun (umount_command env mnt) x) ms outs"
      and buf: "buf = concat (map (\<lambda>m. m @ [newline]) (failed_unmounts (zip ms outs)))" by auto
    let ?msgs = "failed_unmounts (zip ms outs)"
    have trace: "unmount_trace env (evs0 @ evs1) (case ?msgs of [] \<Rightarrow> Ok () | msgs \<Rightarrow> Err (ErrorString (Join msgs [newline])))"
      unfolding unmount_trace_def Let_def using table outs by (intro disjI2 exI [of _ content] exI [of _ outs]) simp
    show "emits calls (if 0 < length buf then throwE (ErrorString (take (length buf - 1) buf)) else returnE ())
        (\<lambda>evs. unmount_trace env (evs0 @ evs1 @ evs))"
    proof (cases "?msgs = []")
      case True
      with trace buf show ?thesis by (auto intro: emits_return)
    next
      case False
      then have "take (length buf - 1) buf = Join ?msgs [newline]"
        unfolding buf by (rule butlast_messages)
      moreover from False buf have "0 < length buf" by (cases ?msgs) auto
      ultimately show ?thesis using trace False by (auto intro!: emits_throw split: list.splits)
    qed
  qed (auto intro: emits_throw)
qed auto

end

section \<open>The environments of the program\<close>

text \<open>
  The environment \<open>GetDefaultRunner\<close> builds, over any operating system, and the one of the
  repository's tests.
\<close>

abbreviation production_env :: "volume_flags \<Rightarrow> 'w Sys \<Rightarrow> (string \<Rightarrow> go_error + DiskEntry list) \<Rightarrow> map_order \<Rightarrow> 'w Env" where
  "production_env vflags sys parse ord \<equiv> volumesEnv vflags (commandRunner sys) (defaultProvider sys) parse ord"

abbreviation test_env :: "volume_flags \<Rightarrow> ProviderStub \<Rightarrow> (string \<Rightarrow> go_error + DiskEntry list) \<Rightarrow> map_order \<Rightarrow> MockRunner Env" where
  "test_env vflags stub parse ord \<equiv> volumesEnv vflags mockRunner (providerStub stub) parse ord"

interpretation production: reliable_env "production_env vflags sys parse ord" for vflags sys parse ord
  unfolding reliable_env_def volumes_env_def
  by (simp add: runner.reliable_runner_axioms runner.os_command_runner_axioms
      default_provider.reliable_provider_axioms default_provider.metadata_provider_axioms)

interpretation testing: volumes_env "test_env vflags stub parse ord" for vflags stub parse ord
  unfolding volumes_env_def
  by (simp add: mock.os_command_runner_axioms stub_provider.metadata_provider_axioms)

section \<open>Properties\<close>

definition renderable :: "mount \<Rightarrow> bool" where
  "renderable m \<longleftrightarrow> mnt_device m \<noteq> [] \<and> hd (mnt_device m) \<noteq> CHR ''#'' \<and> length (render_mount m) < MaxScanTokenSize"

definition mount_table :: "mount list \<Rightarrow> string" where
  "mount_table ms = concat (map (\<lambda>m. render_mount m @ [newline]) ms)"

lemma render_mount_plain: "length (render_mount m) < MaxScanTokenSize \<Longrightarrow> plain_line (render_mount m)"
  using escape_free(3) by (auto simp: plain_line_def render_mount_def)

lemma konlet_mounts_append: "konlet_mounts pre (ls @ ls') = konlet_mounts pre ls @ konlet_mounts pre ls'"
  by (induction pre ls rule: konlet_mounts.induct) (auto split: sum.split option.split)

lemma konlet_mounts_render:
  "\<forall>m \<in> set ms. mnt_device m \<noteq> [] \<and> hd (mnt_device m) \<noteq> CHR ''#'' \<Longrightarrow>
   konlet_mounts pre (map render_mount ms) = filter (\<lambda>m. HasPrefix (mnt_mountPoint m) pre) ms"
proof (induction ms)
  case (Cons m ms)
  have "parseMountEntry (render_mount m) = Inr (Some m)"
  proof -
    have "\<not> HasPrefix (render_mount m) ''#''"
      using Cons.prems by (simp add: render_mount_def hash_escape)
    then show ?thesis by (simp add: parseMountEntry_def render_mount_split mount_field.dec_enc)
  qed
  with Cons show ?case by simp
qed simp

text \<open>A line that does not fit the scanner's buffer hides every mount behind it.\<close>

lemma scan_table:
  assumes "\<forall>m \<in> set ms. renderable m"
  shows "scan_lines (mount_table ms @ rest) = (map render_mount ms @ fst (scan_lines rest), snd (scan_lines rest))"
  using assms
proof (induction ms)
  case (Cons m ms)
  then have p: "plain_line (render_mount m)" by (simp add: renderable_def render_mount_plain)
  then have "dropCR (render_mount m) = render_mount m" by (auto simp: plain_line_def dropCR_def)
  with Cons p show ?case
    by (simp add: mount_table_def scan_lines_line plain_line_def)
qed (simp add: mount_table_def)

text \<open>C18. Listing the mounts of a mount table finds exactly those whose mount point starts with
  konlet's prefix, in the order of the table, each with its original fields, as long as every line fits
  the 64 KiB buffer of the scanner.\<close>

theorem konlet_mounts_of_table:
  assumes "\<forall>m \<in> set ms. renderable m"
  shows "konlet_mounts pre (fst (scan_lines (mount_table ms))) = filter (\<lambda>m. HasPrefix (mnt_mountPoint m) pre) ms"
  using scan_table [OF assms, of "[]"] konlet_mounts_render [of ms pre] assms
  by (simp add: renderable_def)

theorem konlet_mounts_of_table_witness:
  "konlet_mounts ''/mnt/k'' (fst (scan_lines (mount_table
     [\<lparr>mnt_device = ''proc'', mnt_mountPoint = ''/proc'', mnt_fsType = ''proc'', mnt_options = ''rw''\<rparr>,
      \<lparr>mnt_device = ''tmpfs'', mnt_mountPoint = ''/mnt/k/a b'', mnt_fsType = ''tmpfs'', mnt_options = ''rw''\<rparr>]))) =
   [\<lparr>mnt_device = ''tmpfs'', mnt_mountPoint = ''/mnt/k/a b'', mnt_fsType = ''tmpfs'', mnt_options = ''rw''\<rparr>]"
  by (subst konlet_mounts_of_table)
    (simp_all add: renderable_def HasPrefix_def render_mount_def escape_def escape_char_def octal_defs MaxScanTokenSize_def)



text \<open>C13. \<open>UnmountExistingVolumes\<close>, run on any machine: it lists the mounts once and, if that
  works, tries to unmount each mount under the prefix exactly once, in the order of the table, going on
  when one fails; it returns nil if none failed and otherwise the messages of the failures joined by
  newlines.\<close>

theorem UnmountExistingVolumes_trace:
  "emits calls (UnmountExistingVolumes (production_env vflags sys parse ord)) (unmount_trace (production_env vflags sys parse ord))"
  by (rule production.unmounts)

lemma unmount_trace_safe:
  assumes "unmount_trace env evs r" and "CRun args x \<in> set evs"
  shows "args = list_command env \<or> (\<exists>mnt. args = umount_command env mnt \<and> HasPrefix (mnt_mountPoint mnt) (env_mountedVolumesPathPrefix env))"
proof -
  have "HasPrefix (mnt_mountPoint m) pre" if "m \<in> set (konlet_mounts pre ls)" for m pre ls
    using that by (induction pre ls rule: konlet_mounts.induct) (auto split: sum.splits option.splits if_splits)
  with assms show ?thesis
    by (auto simp: unmount_trace_def Let_def dest!: set_zip_leftD) blast+
qed

text \<open>The prefix test has no path separator: a sibling of konlet's directory passes it.\<close>

lemma sibling_directory_matches:
  "konlet_mounts default_mountedVolumesPathPrefix
     [render_mount \<lparr>mnt_device = ''d'', mnt_mountPoint = ''/mnt/disks/gce-containers-mounts-backup/data'',
        mnt_fsType = ''ext4'', mnt_options = ''rw''\<rparr>] =
   [\<lparr>mnt_device = ''d'', mnt_mountPoint = ''/mnt/disks/gce-containers-mounts-backup/data'',
        mnt_fsType = ''ext4'', mnt_options = ''rw''\<rparr>]"
  using konlet_mounts_render [of "[\<lparr>mnt_device = ''d'', mnt_mountPoint = ''/mnt/disks/gce-containers-mounts-backup/data'',
        mnt_fsType = ''ext4'', mnt_options = ''rw''\<rparr>]" default_mountedVolumesPathPrefix]
  by (simp add: HasPrefix_def default_mountedVolumesPathPrefix_def)

end
