(* ===== verification/Volumes.thy ===== *)
theory Volumes
  imports Mounts Json
begin

unbundle bit_operations_syntax

text \<open>
  The handlers of the three kinds of volumes in \<open>volumes/volumes.go\<close>: the host path, the tmpfs
  and the GCE persistent disk, with the checks and commands they issue. Every function is described
  by its trace specification; the safety of formatting is a policy on traces.
\<close>

section \<open>Handlers\<close>

definition ext4FsType :: string where "ext4FsType = ''ext4''"

record VolumeHostPathAndMode =
  hp_hostPath :: string
  hp_readOnly :: bool

definition getSinglePropertyFromDeviceWithLsblk :: "'w Env \<Rightarrow> string \<Rightarrow> string \<Rightarrow> ('w st, string) go" where
  "getSinglePropertyFromDeviceWithLsblk env devicePath property =
     handleE (run_cmd env (wrapToEnterHostMountNamespace env [''lsblk'', ''-n'', ''-o'', property, devicePath]))
       throwE
       (\<lambda>output. if 1 < Count_newlines output
          then handleE (run_cmd env (wrapToEnterHostMountNamespace env [''lsblk'']))
            (\<lambda>debugErr. throwE (ErrorString (''Received multiline output, but can'' @ [CHR 0x27] @ ''t run standard lsblk for debug output: '' @ Error debugErr)))
            (\<lambda>debugOutput. throwE (ErrorString (''Received multiline output from lsblk. The device likely contains subpartitions:'' @ [newline] @ debugOutput)))
          else returnE (TrimSpace output))"

definition checkDeviceNotMounted :: "'w Env \<Rightarrow> string \<Rightarrow> ('w st, unit) go" where
  "checkDeviceNotMounted env devicePath =
     handleE (getSinglePropertyFromDeviceWithLsblk env devicePath ''MOUNTPOINT'')
       throwE
       (\<lambda>mountPoint. if mountPoint = [] then returnE ()
          else throwE (ErrorString (''Device '' @ devicePath @ '' is already mounted at '' @ mountPoint)))"

text \<open>Calling a method of a nil \<open>FileInfo\<close> panics.\<close>

definition checkDeviceReadable :: "'w Env \<Rightarrow> string \<Rightarrow> ('w st, unit) go" where
  "checkDeviceReadable env devicePath =
     handleE (call_Stat (env_Runner env) devicePath)
       (\<lambda>err. throwE (ErrorString (''Device '' @ devicePath @ '' access error: '' @ Error err)))
       (\<lambda>fileInfo. case fileInfo of
            None \<Rightarrow> panicE NilDereference
          | Some info \<Rightarrow>
              if fi_Mode info AND ModeDevice = 0 \<or> fi_Mode info AND ModeCharDevice \<noteq> 0
              then throwE (ErrorString (''Path '' @ devicePath @ '' is not a block device.''))
              else returnE ())"

definition checkFilesystemAndFormatIfNeeded :: "'w Env \<Rightarrow> string \<Rightarrow> string \<Rightarrow> ('w st, unit) go" where
  "checkFilesystemAndFormatIfNeeded env devicePath configuredFsType =
     (let filesystemCheckerMap = map_put ext4FsType [''fsck.ext4'', ''-p''] map_make;
          filesystemFormatterMap = map_put ext4FsType [''mkfs.ext4''] map_make
      in case (map_get filesystemCheckerMap configuredFsType, map_get filesystemFormatterMap configuredFsType) of
           (Some filesystemChecker, Some filesystemFormatter) \<Rightarrow>
             handleE (getSinglePropertyFromDeviceWithLsblk env devicePath ''FSTYPE'')
               throwE
               (\<lambda>foundFsType.
                  if foundFsType = [] then
                    seqE (log_Printf (''Formatting device '' @ devicePath @ '' with filesystem '' @ configuredFsType @ ''...''))
                      (handleE (run_cmd env (filesystemFormatter @ [devicePath]))
                         (\<lambda>err. throwE (ErrorString (''Failed to format filesystem: '' @ Error err)))
                         (\<lambda>output. log_Printf (output @ [newline])))
                  else if foundFsType = configuredFsType then
                    seqE (log_Printf (''Running filesystem checker on device '' @ devicePath @ ''...''))
                      (handleE (run_cmd env (filesystemChecker @ [devicePath]))
                         (\<lambda>err. throwE (ErrorString (''Filesystem check failed: '' @ Error err)))
                         (\<lambda>output. log_Printf (output @ [newline])))
                  else throwE (ErrorString (''Device '' @ devicePath @ '': found filesystem type '' @ foundFsType @ '', expected '' @ configuredFsType @ ''.'')))
         | _ \<Rightarrow> throwE (ErrorString (''Could not find checker or formatter for filesystem '' @ configuredFsType @ ''.'')))"

definition createNewMountPath :: "'w Env \<Rightarrow> string \<Rightarrow> string \<Rightarrow> ('w st, string) go" where
  "createNewMountPath env volumeFamily volumeName =
     (let path = env_mountedVolumesPathPrefix env @ ''/'' @ volumeFamily @ ''s/'' @ volumeName
      in seqE (log_Printf (''Creating directory '' @ path @ '' as a mount point for volume '' @ volumeName @ ''.''))
           (handleE (call_MkdirAll (env_Runner env) path 493)
              (\<lambda>err. throwE (ErrorString (''Failed to create directory '' @ path @ '': '' @ Error err)))
              (\<lambda>_. returnE path)))"

definition processMemoryBackedEmptyDirVolume :: "'w Env \<Rightarrow> EmptyDirVolume \<Rightarrow> string \<Rightarrow> ('w st, VolumeHostPathAndMode) go" where
  "processMemoryBackedEmptyDirVolume env volume volumeName =
     handleE (createNewMountPath env ''tmpfs'' volumeName)
       throwE
       (\<lambda>tmpfsMountPoint.
          handleE (mountDevice env (newMount ''tmpfs'' tmpfsMountPoint ''tmpfs'' [readOnly False]))
            throwE
            (\<lambda>_. returnE \<lparr>hp_hostPath = tmpfsMountPoint, hp_readOnly = False\<rparr>))"

definition processEmptyDirVolume :: "'w Env \<Rightarrow> EmptyDirVolume \<Rightarrow> string \<Rightarrow> ('w st, VolumeHostPathAndMode) go" where
  "processEmptyDirVolume env volume volumeName =
     (if Medium volume \<noteq> ''Memory''
      then throwE (ErrorString (''Unsupported emptyDir volume medium: '' @ Medium volume))
      else processMemoryBackedEmptyDirVolume env volume volumeName)"

definition processHostPathVolume :: "'w Env \<Rightarrow> HostPathVolume \<Rightarrow> ('w st, VolumeHostPathAndMode) go" where
  "processHostPathVolume env volume = returnE \<lparr>hp_hostPath = Path volume, hp_readOnly = False\<rparr>"

definition resolveGcePersistentDiskDevicePath :: "string \<Rightarrow> ('w st, string) go" where
  "resolveGcePersistentDiskDevicePath pdName = returnE (''/dev/disk/by-id/google-'' @ pdName)"

definition processGcePersistentDiskVolume ::
  "'w Env \<Rightarrow> GcePersistentDiskVolume \<Rightarrow> bool \<Rightarrow> bool go_map \<Rightarrow> ('w st, VolumeHostPathAndMode) go" where
  "processGcePersistentDiskVolume env volume volumeMountWantsReadWrite diskMetadataReadOnlyMap =
     (if FsType volume \<noteq> [] \<and> FsType volume \<noteq> ext4FsType
      then throwE (ErrorString (''Unsupported filesystem type: '' @ FsType volume))
      else let chosenFsType = ext4FsType in
      if PdName volume = [] then throwE (ErrorString ''Empty GCE Persistent Disk name!'')
      else case map_get diskMetadataReadOnlyMap (PdName volume) of
        None \<Rightarrow> throwE (ErrorString (''Could not determine if the GCE Persistent Disk '' @ PdName volume @ '' is attached read-only or read-write.''))
      | Some attachedReadOnly \<Rightarrow>
        if attachedReadOnly \<and> volumeMountWantsReadWrite
        then throwE (ErrorString (''Volume mount requires read-write access, but the GCE Persistent Disk '' @ PdName volume @ '' is attached read-only.''))
        else handleE (resolveGcePersistentDiskDevicePath (PdName volume))
          (\<lambda>err. throwE (ErrorString (''Could not resolve GCE Persistent Disk device path: '' @ Error err)))
          (\<lambda>devicePath.
             let devicePath = (if 0 < Partition volume then devicePath @ ''-part'' @ fmt_d (Partition volume) else devicePath)
             in seqE (checkDeviceReadable env devicePath)
               (seqE (checkDeviceNotMounted env devicePath)
               (seqE (if \<not> attachedReadOnly then checkFilesystemAndFormatIfNeeded env devicePath chosenFsType else returnE ())
               (let mountReadOnly = attachedReadOnly \<or> \<not> volumeMountWantsReadWrite
                in handleE (createNewMountPath env ''gce-persistent-disk'' (PdName volume))
                  throwE
                  (\<lambda>deviceMountPoint.
                     let mnt = newMount devicePath deviceMountPoint chosenFsType [readOnly mountReadOnly]
                     in handleE (mountDevice env mnt)
                       throwE
                       (\<lambda>_. returnE \<lparr>hp_hostPath = deviceMountPoint, hp_readOnly = mountReadOnly\<rparr>)))))))"

section \<open>Disk metadata\<close>

text \<open>
  \<open>json.Unmarshal\<close> into the list of structs: each element starts as the zero struct. The
  function below is the decoder the program runs with; the rest of this theory holds for any.
\<close>

definition entry_fields :: "string list" where
  "entry_fields = [''DeviceName'', ''Mode'']"

definition store_entry :: "json_errors \<Rightarrow> string \<Rightarrow> json \<Rightarrow> DiskEntry \<Rightarrow> go_error + DiskEntry" where
  "store_entry errs field v e =
     (if field = ''DeviceName'' then map_sum id (\<lambda>s. e\<lparr>DeviceName := s\<rparr>) (store_string errs field v (DeviceName e))
      else map_sum id (\<lambda>s. e\<lparr>Mode := s\<rparr>) (store_string errs field v (Mode e)))"

definition Unmarshal_disks :: "json_errors \<Rightarrow> string \<Rightarrow> go_error + DiskEntry list" where
  "Unmarshal_disks errs = Unmarshal errs
     (store_slice errs (\<lambda>v. store_struct errs entry_fields (store_entry errs) v \<lparr>DeviceName = [], Mode = []\<rparr>))"

text \<open>\<open>%+v\<close> of the parsed metadata.\<close>

definition fmt_entries :: "DiskEntry list \<Rightarrow> string" where
  "fmt_entries es = ''['' @ Join (map (\<lambda>e. ''{DeviceName:'' @ DeviceName e @ '' Mode:'' @ Mode e @ ''}'') es) '' '' @ '']''"

fun disk_modes :: "DiskEntry list \<Rightarrow> DiskEntry list \<Rightarrow> bool go_map \<Rightarrow> go_error + bool go_map" where
  "disk_modes parsedMetadata [] m = Inr m"
| "disk_modes parsedMetadata (entry # entries) m =
     (if DeviceName entry = [] then Inl (ErrorString (''Received empty device name in the metadata: '' @ fmt_entries parsedMetadata))
      else if Mode entry = ''READ_WRITE'' then disk_modes parsedMetadata entries (map_put (DeviceName entry) False m)
      else if Mode entry = ''READ_ONLY'' then disk_modes parsedMetadata entries (map_put (DeviceName entry) True m)
      else Inl (ErrorString (''Received unknown device mode from metadata for device '' @ DeviceName entry @ '': '' @ Mode entry)))"

definition lift_result :: "go_error + 'a \<Rightarrow> ('s, 'a) go" where
  "lift_result x = (case x of Inl e \<Rightarrow> throwE e | Inr v \<Rightarrow> returnE v)"

lemma lift_result_simps [simp]: "lift_result (Inl e) = throwE e" "lift_result (Inr v) = returnE v"
  by (simp_all add: lift_result_def)

definition buildDiskMetadataReadOnlyMap :: "'w Env \<Rightarrow> ('w st, bool go_map) go" where
  "buildDiskMetadataReadOnlyMap env =
     handleE (call_Disks (env_Metadata env))
       (\<lambda>err. throwE (ErrorString (''Failed to retrieve disk metadata: '' @ Error err)))
       (\<lambda>diskMetadataJson. case env_ParseDisks env diskMetadataJson of
            Inl err \<Rightarrow> throwE (ErrorString (''Failed to unmarshal disk metadata JSON: '' @ Error err))
          | Inr parsedMetadata \<Rightarrow> lift_result (disk_modes parsedMetadata parsedMetadata map_make))"

section \<open>Trace specifications\<close>

definition lsblk_command :: "'w Env \<Rightarrow> string \<Rightarrow> string \<Rightarrow> string list" where
  "lsblk_command env property dev = wrapToEnterHostMountNamespace env [''lsblk'', ''-n'', ''-o'', property, dev]"

text \<open>A call that only looks: a stat, or \<open>lsblk\<close>.\<close>

definition inspects :: "'w Env \<Rightarrow> call \<Rightarrow> bool" where
  "inspects env ev \<longleftrightarrow> (\<exists>p x. ev = CStat p x) \<or> (\<exists>args x. ev = CRun (wrapToEnterHostMountNamespace env (''lsblk'' # args)) x)"

definition block_device :: "FileInfo \<Rightarrow> bool" where
  "block_device info \<longleftrightarrow> fi_Mode info AND ModeDevice \<noteq> 0 \<and> fi_Mode info AND ModeCharDevice = 0"

text \<open>The filesystem tool for what \<open>lsblk\<close> found: format nothing but an empty answer.\<close>

definition fs_tool :: "string \<Rightarrow> string \<Rightarrow> string list" where
  "fs_tool found dev = (if found = [] then [''mkfs.ext4'', dev] else [''fsck.ext4'', ''-p'', dev])"

text \<open>The tool is tried on the device right after \<open>lsblk\<close> answered with what it is chosen for.\<close>

definition fs_attempt :: "'w Env \<Rightarrow> string \<Rightarrow> string outcome \<Rightarrow> call list \<Rightarrow> bool" where
  "fs_attempt env dev x evs \<longleftrightarrow> (\<exists>out. TrimSpace out \<in> {[], ext4FsType} \<and>
     evs = [CRun (lsblk_command env ''FSTYPE'' dev) (Ok out), CRun (fs_tool (TrimSpace out) dev) x])"

definition prepared_fs :: "'w Env \<Rightarrow> string \<Rightarrow> call list \<Rightarrow> bool" where
  "prepared_fs env dev evs \<longleftrightarrow> (\<exists>out'. fs_attempt env dev (Ok out') evs)"

definition new_mount_path :: "'w Env \<Rightarrow> string \<Rightarrow> string \<Rightarrow> string" where
  "new_mount_path env family name = env_mountedVolumesPathPrefix env @ ''/'' @ family @ ''s/'' @ name"

definition pd_device :: "GcePersistentDiskVolume \<Rightarrow> string" where
  "pd_device volume = ''/dev/disk/by-id/google-'' @ PdName volume
     @ (if 0 < Partition volume then ''-part'' @ fmt_d (Partition volume) else [])"

definition pd_mount :: "'w Env \<Rightarrow> GcePersistentDiskVolume \<Rightarrow> bool \<Rightarrow> mount" where
  "pd_mount env volume ro = \<lparr>mnt_device = pd_device volume,
     mnt_mountPoint = new_mount_path env ''gce-persistent-disk'' (PdName volume),
     mnt_fsType = ext4FsType, mnt_options = (if ro then ''ro'' else ''rw'')\<rparr>"

definition tmpfs_mount :: "'w Env \<Rightarrow> string \<Rightarrow> mount" where
  "tmpfs_mount env name = \<lparr>mnt_device = ''tmpfs'', mnt_mountPoint = new_mount_path env ''tmpfs'' name,
     mnt_fsType = ''tmpfs'', mnt_options = ''rw''\<rparr>"

text \<open>
  The run that mounts a persistent disk: it is a block device, nothing is mounted from it, its
  filesystem is prepared unless the disk is attached read-only, and it is mounted, read-only if it is
  attached so or if no mount wants to write.
\<close>

definition pd_mounted :: "'w Env \<Rightarrow> GcePersistentDiskVolume \<Rightarrow> bool \<Rightarrow> bool \<Rightarrow> VolumeHostPathAndMode \<Rightarrow> call list \<Rightarrow> bool" where
  "pd_mounted env volume wantsRW attachedRO hp evs \<longleftrightarrow>
     (let dev = pd_device volume; ro = attachedRO \<or> \<not> wantsRW; mnt = pd_mount env volume ro in
      \<exists>info out fs out'. evs = CStat dev (Ok (Some info)) # CRun (lsblk_command env ''MOUNTPOINT'' dev) (Ok out) #
          fs @ [CMkdirAll (mnt_mountPoint mnt) 493 (Ok ()), CRun (mount_command env mnt) (Ok out')]
      \<and> block_device info \<and> TrimSpace out = []
      \<and> (if attachedRO then fs = [] else prepared_fs env dev fs)
      \<and> hp = \<lparr>hp_hostPath = mnt_mountPoint mnt, hp_readOnly = ro\<rparr>)"

text \<open>A run that mounted nothing: no mount command in it succeeded.\<close>

definition mounts_nothing :: "'w Env \<Rightarrow> call list \<Rightarrow> bool" where
  "mounts_nothing env evs \<longleftrightarrow> (\<forall>mnt out. CRun (mount_command env mnt) (Ok out) \<notin> set evs)"

text \<open>A run that neither formats nor checks a filesystem.\<close>

definition fs_untouched :: "call list \<Rightarrow> bool" where
  "fs_untouched evs \<longleftrightarrow> (\<forall>found dev x. CRun (fs_tool found dev) x \<notin> set evs)"

text \<open>The commands differ in their first word, inside or outside the host's mount namespace.\<close>

lemma wrap_heads:
  "wrapToEnterHostMountNamespace env (x # xs) = wrapToEnterHostMountNamespace env ys \<longleftrightarrow> ys = x # xs"
  "x \<noteq> ''nsenter'' \<Longrightarrow> y \<noteq> x \<Longrightarrow> x # xs \<noteq> wrapToEnterHostMountNamespace env (y # ys)"
  "x \<noteq> ''nsenter'' \<Longrightarrow> y \<noteq> x \<Longrightarrow> wrapToEnterHostMountNamespace env (y # ys) \<noteq> x # xs"
  by (auto simp: wrapToEnterHostMountNamespace_def)

lemma inspects_no_mount: "inspects env ev \<Longrightarrow> ev \<noteq> CRun (mount_command env mnt) x"
  by (auto simp: inspects_def mount_command_def)

lemma fs_tool_no_mount: "fs_tool found dev \<noteq> mount_command env mnt"
  by (simp add: fs_tool_def mount_command_def wrap_heads)

lemma mounts_nothing_simps [simp]:
  "mounts_nothing env []"
  "mounts_nothing env (a @ b) \<longleftrightarrow> mounts_nothing env a \<and> mounts_nothing env b"
  "mounts_nothing env (CMkdirAll p m y # b) \<longleftrightarrow> mounts_nothing env b"
  "mounts_nothing env (CStat p z # b) \<longleftrightarrow> mounts_nothing env b"
  by (simp_all add: mounts_nothing_def) blast

lemma fs_untouched_simps [simp]:
  "fs_untouched []"
  "fs_untouched (a @ b) \<longleftrightarrow> fs_untouched a \<and> fs_untouched b"
  "fs_untouched (CMkdirAll p m y # b) \<longleftrightarrow> fs_untouched b"
  "fs_untouched (CStat p z # b) \<longleftrightarrow> fs_untouched b"
  by (simp_all add: fs_untouched_def) blast

lemma fs_tool_no_lsblk: "fs_tool found dev \<noteq> wrapToEnterHostMountNamespace env (''lsblk'' # args)"
  by (simp add: fs_tool_def wrap_heads)

lemma fs_untouched_inspects: "\<forall>ev \<in> set evs. inspects env ev \<Longrightarrow> fs_untouched evs"
  unfolding fs_untouched_def inspects_def by (metis fs_tool_no_lsblk call.inject(1) call.distinct(3))

lemma fs_untouched_mount [simp]: "fs_untouched (CRun (mount_command env mnt) x # b) \<longleftrightarrow> fs_untouched b"
  using fs_tool_no_mount by (auto simp: fs_untouched_def)

lemma mounts_nothing_lsblk [simp]:
  "mounts_nothing env (CRun (lsblk_command env property dev) x # b) \<longleftrightarrow> mounts_nothing env b"
  by (auto simp: mounts_nothing_def lsblk_command_def mount_command_def)

lemma mounts_nothing_tool [simp]:
  "mounts_nothing env (CRun (fs_tool found dev) x # b) \<longleftrightarrow> mounts_nothing env b"
  using fs_tool_no_mount [THEN not_sym] by (auto simp: mounts_nothing_def)

lemma fs_untouched_lsblk [simp]:
  "fs_untouched (CRun (lsblk_command env property dev) x # b) \<longleftrightarrow> fs_untouched b"
  using fs_tool_no_lsblk by (auto simp: fs_untouched_def lsblk_command_def)

lemma mounts_nothing_inspects: "\<forall>ev \<in> set evs. inspects env ev \<Longrightarrow> mounts_nothing env evs"
  unfolding mounts_nothing_def by (metis inspects_no_mount)

lemma mounts_nothing_attempt: "fs_attempt env dev x evs \<Longrightarrow> mounts_nothing env evs"
  by (auto simp: fs_attempt_def)

context volumes_env
begin

lemma emits_lsblk:
  "emits calls (getSinglePropertyFromDeviceWithLsblk env dev property)
     (good_or_bad (\<lambda>v evs. \<exists>out. evs = [CRun (lsblk_command env property dev) (Ok out)] \<and> v = TrimSpace out)
        (\<lambda>evs. \<forall>ev \<in> set evs. inspects env ev))"
  unfolding getSinglePropertyFromDeviceWithLsblk_def lsblk_command_def [symmetric]
proof (rule emits_then [OF emits_weaken [OF emits_run]])
  show "good_or_bad (\<lambda>v evs. evs = [CRun (lsblk_command env property dev) (Ok v)]) (\<lambda>evs. \<forall>ev \<in> set evs. inspects env ev) evs r"
    if "evs = [CRun (lsblk_command env property dev) r]" for evs r
    using that by (auto simp: good_or_bad_def inspects_def lsblk_command_def split: outcome.split)
next
  fix out evs0
  assume evs0: "evs0 = [CRun (lsblk_command env property dev) (Ok out)]"
  let ?S = "\<lambda>evs. good_or_bad (\<lambda>v evs. \<exists>out. evs = [CRun (lsblk_command env property dev) (Ok out)] \<and> v = TrimSpace out)
        (\<lambda>evs. \<forall>ev \<in> set evs. inspects env ev) (evs0 @ evs)"
  have debug: "emits calls (handleE (run_cmd env (wrapToEnterHostMountNamespace env [''lsblk''])) (\<lambda>e. throwE (h e)) (\<lambda>v. throwE (k v))) ?S"
    for h k
  proof (rule emits_handle [OF emits_run])
    show "emits calls (throwE (k v)) (\<lambda>evs. ?S (evs1 @ evs))"
      if "evs1 = [CRun (wrapToEnterHostMountNamespace env [''lsblk'']) (Ok v)]" for v evs1
      using that evs0 by (intro emits_throw) (auto simp: inspects_def lsblk_command_def)
    show "emits calls (throwE (h e)) (\<lambda>evs. ?S (evs1 @ evs))"
      if "evs1 = [CRun (wrapToEnterHostMountNamespace env [''lsblk'']) (Err e)]" for e evs1
      using that evs0 by (intro emits_throw) (auto simp: inspects_def lsblk_command_def)
    show "?S evs (Panic p)" if "evs = [CRun (wrapToEnterHostMountNamespace env [''lsblk'']) (Panic p)]" for evs p
      using that evs0 by (auto simp: inspects_def lsblk_command_def)
  qed
  have one: "emits calls (returnE (TrimSpace out)) ?S"
    using evs0 by (intro emits_return) simp
  show "emits calls (if 1 < Count_newlines out
      then handleE (run_cmd env (wrapToEnterHostMountNamespace env [''lsblk'']))
        (\<lambda>debugErr. throwE (ErrorString (''Received multiline output, but can'' @ [CHR 0x27] @ ''t run standard lsblk for debug output: '' @ Error debugErr)))
        (\<lambda>debugOutput. throwE (ErrorString (''Received multiline output from lsblk. The device likely contains subpartitions:'' @ [newline] @ debugOutput)))
      else returnE (TrimSpace out)) ?S"
    by (cases "1 < Count_newlines out") (simp_all only: if_True if_False debug one)
qed simp

lemma emits_checkDeviceNotMounted:
  "emits calls (checkDeviceNotMounted env dev)
     (good_or_bad (\<lambda>_ evs. \<exists>out. evs = [CRun (lsblk_command env ''MOUNTPOINT'' dev) (Ok out)] \<and> TrimSpace out = [])
        (\<lambda>evs. \<forall>ev \<in> set evs. inspects env ev))"
  unfolding checkDeviceNotMounted_def
proof (rule emits_then [OF emits_lsblk])
  fix v evs0
  assume "\<exists>out. evs0 = [CRun (lsblk_command env ''MOUNTPOINT'' dev) (Ok out)] \<and> v = TrimSpace out"
  then obtain out where "evs0 = [CRun (lsblk_command env ''MOUNTPOINT'' dev) (Ok out)]" "v = TrimSpace out" by blast
  then show "emits calls (if v = [] then returnE () else throwE (ErrorString (''Device '' @ dev @ '' is already mounted at '' @ v)))
     (\<lambda>evs. good_or_bad (\<lambda>_ evs. \<exists>out. evs = [CRun (lsblk_command env ''MOUNTPOINT'' dev) (Ok out)] \<and> TrimSpace out = [])
        (\<lambda>evs. \<forall>ev \<in> set evs. inspects env ev) (evs0 @ evs))"
    by (cases "v = []") (auto intro!: emits_return emits_throw simp: inspects_def lsblk_command_def)
qed

lemma emits_checkDeviceReadable:
  "emits calls (checkDeviceReadable env dev)
     (good_or_bad (\<lambda>_ evs. \<exists>info. evs = [CStat dev (Ok (Some info))] \<and> block_device info)
        (\<lambda>evs. \<forall>ev \<in> set evs. inspects env ev))"
  unfolding checkDeviceReadable_def
proof (rule emits_then [OF emits_good_or_bad [OF runner.emits_Stat, where good = "\<lambda>v evs. evs = [CStat dev (Ok v)]"
      and bad = "\<lambda>evs. \<forall>ev \<in> set evs. inspects env ev"]])
  fix v evs0
  assume evs0: "evs0 = [CStat dev (Ok v)]"
  show "emits calls (case v of None \<Rightarrow> panicE NilDereference
          | Some info \<Rightarrow> if fi_Mode info AND ModeDevice = 0 \<or> fi_Mode info AND ModeCharDevice \<noteq> 0
              then throwE (ErrorString (''Path '' @ dev @ '' is not a block device.'')) else returnE ())
     (\<lambda>evs. good_or_bad (\<lambda>_ evs. \<exists>info. evs = [CStat dev (Ok (Some info))] \<and> block_device info)
        (\<lambda>evs. \<forall>ev \<in> set evs. inspects env ev) (evs0 @ evs))"
    using evs0 by (cases v) (auto intro!: emits_return emits_throw emits_panic simp: inspects_def block_device_def)
qed (auto simp: inspects_def)

text \<open>A command whose error is wrapped and whose output goes to the log.\<close>

lemma emits_tool:
  assumes "\<And>x. bad [CRun args x]" and "\<And>out. good () [CRun args (Ok out)]"
  shows "emits calls (handleE (run_cmd env args) (\<lambda>err. throwE (h err)) (\<lambda>output. log_Printf (output @ [newline])))
     (good_or_bad good bad)"
proof (rule emits_then [OF emits_good_or_bad [OF emits_run, where good = "\<lambda>v evs. evs = [CRun args (Ok v)]" and bad = bad]])
  fix out evs0
  assume "evs0 = [CRun args (Ok out)]"
  with assms(2) show "emits calls (log_Printf (out @ [newline])) (\<lambda>evs. good_or_bad good bad (evs0 @ evs))"
    by (intro emitsI) (simp add: log_Printf_def)
qed (use assms in auto)

lemma emits_checkFilesystem:
  "emits calls (checkFilesystemAndFormatIfNeeded env dev ext4FsType)
     (good_or_bad (\<lambda>_. prepared_fs env dev) (\<lambda>evs. (\<forall>ev \<in> set evs. inspects env ev) \<or> (\<exists>x. fs_attempt env dev x evs)))"
proof -
  have tools: "fs_tool [] dev = [''mkfs.ext4''] @ [dev]" "fs_tool ext4FsType dev = [''fsck.ext4'', ''-p''] @ [dev]"
    by (simp_all add: fs_tool_def ext4FsType_def)
  have eq: "checkFilesystemAndFormatIfNeeded env dev ext4FsType =
     handleE (getSinglePropertyFromDeviceWithLsblk env dev ''FSTYPE'') throwE
       (\<lambda>found. if found = [] then
            seqE (log_Printf (''Formatting device '' @ dev @ '' with filesystem '' @ ext4FsType @ ''...''))
              (handleE (run_cmd env (fs_tool [] dev))
                 (\<lambda>err. throwE (ErrorString (''Failed to format filesystem: '' @ Error err)))
                 (\<lambda>output. log_Printf (output @ [newline])))
          else if found = ext4FsType then
            seqE (log_Printf (''Running filesystem checker on device '' @ dev @ ''...''))
              (handleE (run_cmd env (fs_tool ext4FsType dev))
                 (\<lambda>err. throwE (ErrorString (''Filesystem check failed: '' @ Error err)))
                 (\<lambda>output. log_Printf (output @ [newline])))
          else throwE (ErrorString (''Device '' @ dev @ '': found filesystem type '' @ found @ '', expected '' @ ext4FsType @ ''.'')))"
    by (simp only: checkFilesystemAndFormatIfNeeded_def Let_def amap.get_put tools if_True simp_thms prod.case option.case)
  show ?thesis
    unfolding eq
  proof (rule emits_then [OF emits_lsblk], goal_cases)
    case (1 found evs0)
    then obtain out where evs0: "evs0 = [CRun (lsblk_command env ''FSTYPE'' dev) (Ok out)]" "found = TrimSpace out" by blast
    let ?S = "\<lambda>evs. good_or_bad (\<lambda>_. prepared_fs env dev) (\<lambda>evs. (\<forall>ev \<in> set evs. inspects env ev) \<or> (\<exists>x. fs_attempt env dev x evs)) (evs0 @ evs)"
    have tool: "emits calls (handleE (run_cmd env (fs_tool found dev)) (\<lambda>err. throwE (h err)) (\<lambda>output. log_Printf (output @ [newline]))) ?S"
      if "found = [] \<or> found = ext4FsType" for h
      using evs0 that
      by (intro emits_weaken [OF emits_tool [where good = "\<lambda>_ evs. \<exists>out. evs = [CRun (fs_tool found dev) (Ok out)]"
            and bad = "\<lambda>evs. \<exists>x. evs = [CRun (fs_tool found dev) x]"]])
        (auto simp: good_or_bad_def prepared_fs_def fs_attempt_def split: outcome.splits)
    have other: "emits calls (throwE e) ?S" for e
      using evs0 by (intro emits_throw) (auto simp: inspects_def lsblk_command_def)
    consider "found = []" | "found \<noteq> []" "found = ext4FsType" | "found \<noteq> []" "found \<noteq> ext4FsType" by blast
    then show ?case
    proof cases
      case 1
      show ?thesis
        unfolding if_P [OF 1] by (rule emits_log, rule tool [unfolded 1]) simp
    next
      case 2
      show ?thesis
        unfolding if_not_P [OF 2(1)] if_P [OF 2(2)] by (rule emits_log, rule tool [unfolded 2(2)]) simp
    next
      case 3
      show ?thesis
        unfolding if_not_P [OF 3(1)] if_not_P [OF 3(2)] by (rule other)
    qed
  next
    case (2 evs)
    then show ?case by simp
  qed
qed

lemma emits_createNewMountPath:
  "emits calls (createNewMountPath env family name)
     (good_or_bad (\<lambda>v evs. v = new_mount_path env family name \<and> evs = [CMkdirAll (new_mount_path env family name) 493 (Ok ())])
        (\<lambda>evs. \<exists>x. evs = [CMkdirAll (new_mount_path env family name) 493 x]))"
  unfolding createNewMountPath_def Let_def new_mount_path_def [symmetric]
  by (intro emits_log emits_good_or_bad [OF emits_conv [OF runner.emits_MkdirAll]]) (auto simp: conv_eqs)

lemma emits_mountDevice_good:
  "emits calls (mountDevice env mnt)
     (good_or_bad (\<lambda>_ evs. \<exists>out. evs = [CRun (mount_command env mnt) (Ok out)])
        (\<lambda>evs. \<exists>x. evs = [CRun (mount_command env mnt) x] \<and> \<not> is_ok x))"
  by (rule emits_good_or_bad [OF emits_mountDevice]) (auto simp: conv_eqs)

lemma emits_mount_at_new_path:
  assumes "mnt_mountPoint (mnt (new_mount_path env family name)) = new_mount_path env family name"
  shows "emits calls (handleE (createNewMountPath env family name) throwE
       (\<lambda>path. handleE (mountDevice env (mnt path)) throwE (\<lambda>_. returnE (f path))))
     (good_or_bad (\<lambda>v evs. let path = new_mount_path env family name in v = f path \<and>
          (\<exists>out. evs = [CMkdirAll path 493 (Ok ()), CRun (mount_command env (mnt path)) (Ok out)]))
        (\<lambda>evs. mounts_nothing env evs \<and> fs_untouched evs))"
proof (rule emits_then [OF emits_createNewMountPath], goal_cases)
  case (1 path evs0)
  then show ?case
    by (intro emits_then_after [OF emits_mountDevice_good] emits_return)
      (auto simp: mounts_nothing_def Let_def)
qed (auto simp: mounts_nothing_def)

lemma emits_processEmptyDirVolume:
  "emits calls (processEmptyDirVolume env volume name)
     (good_or_bad (\<lambda>v evs. Medium volume = ''Memory'' \<and> v = \<lparr>hp_hostPath = new_mount_path env ''tmpfs'' name, hp_readOnly = False\<rparr> \<and>
          (\<exists>out. evs = [CMkdirAll (new_mount_path env ''tmpfs'' name) 493 (Ok ()), CRun (mount_command env (tmpfs_mount env name)) (Ok out)]))
        (\<lambda>evs. mounts_nothing env evs))"
proof (cases "Medium volume = ''Memory''")
  case True
  have mnt: "newMount ''tmpfs'' path ''tmpfs'' [readOnly False] =
      \<lparr>mnt_device = ''tmpfs'', mnt_mountPoint = path, mnt_fsType = ''tmpfs'', mnt_options = ''rw''\<rparr>" for path
    by (simp add: newMount_def readOnly_def)
  have eq: "processEmptyDirVolume env volume name = handleE (createNewMountPath env ''tmpfs'' name) throwE
       (\<lambda>path. handleE (mountDevice env (newMount ''tmpfs'' path ''tmpfs'' [readOnly False])) throwE
          (\<lambda>_. returnE \<lparr>hp_hostPath = path, hp_readOnly = False\<rparr>))"
    using True by (simp add: processEmptyDirVolume_def processMemoryBackedEmptyDirVolume_def)
  show ?thesis
    unfolding eq
    by (rule emits_weaken [OF emits_mount_at_new_path])
      (auto simp: mnt good_or_bad_def tmpfs_mount_def True Let_def split: outcome.splits)
next
  case False
  then show ?thesis
    by (simp only: processEmptyDirVolume_def if_True not_False_eq_True) (rule emits_throw, simp)
qed

lemma emits_processGcePersistentDiskVolume:
  "emits calls (processGcePersistentDiskVolume env volume wantsRW disks)
     (good_or_bad (\<lambda>hp evs. FsType volume \<in> {[], ext4FsType} \<and> PdName volume \<noteq> [] \<and>
          (\<exists>ro. map_get disks (PdName volume) = Some ro \<and> \<not> (ro \<and> wantsRW) \<and> pd_mounted env volume wantsRW ro hp evs))
        (\<lambda>evs. mounts_nothing env evs \<and> (map_get disks (PdName volume) = Some True \<longrightarrow> fs_untouched evs)))"
  (is "emits calls _ (good_or_bad ?good ?bad)")
proof -
  have throw: "emits calls (throwE e) (good_or_bad ?good ?bad)" for e
    by (rule emits_throw) simp
  consider (fs) "FsType volume \<noteq> [] \<and> FsType volume \<noteq> ext4FsType"
    | (name) "FsType volume \<in> {[], ext4FsType}" "PdName volume = []"
    | (unknown) "FsType volume \<in> {[], ext4FsType}" "PdName volume \<noteq> []" "map_get disks (PdName volume) = None"
    | (denied) ro where "FsType volume \<in> {[], ext4FsType}" "PdName volume \<noteq> []"
        "map_get disks (PdName volume) = Some ro" "ro \<and> wantsRW"
    | (mount) ro where "FsType volume \<in> {[], ext4FsType}" "PdName volume \<noteq> []"
        "map_get disks (PdName volume) = Some ro" "\<not> (ro \<and> wantsRW)"
    by (cases "map_get disks (PdName volume)") auto
  then show ?thesis
  proof cases
    case mount
    let ?dev = "pd_device volume" and ?ro = "ro \<or> \<not> wantsRW"
    have guards: "(FsType volume \<noteq> [] \<and> FsType volume \<noteq> ext4FsType) = False" "(PdName volume = []) = False"
      "(ro \<and> wantsRW) = False" using mount by auto
    have mnt: "newMount d p ext4FsType [readOnly b] = \<lparr>mnt_device = d, mnt_mountPoint = p, mnt_fsType = ext4FsType,
        mnt_options = (if b then ''ro'' else ''rw'')\<rparr>" for d p b
      by (simp add: newMount_def readOnly_def)
    have dev: "(if 0 < Partition volume then (''/dev/disk/by-id/google-'' @ PdName volume) @ ''-part'' @ fmt_d (Partition volume)
        else ''/dev/disk/by-id/google-'' @ PdName volume) = ?dev"
      by (simp add: pd_device_def)
    have eq: "processGcePersistentDiskVolume env volume wantsRW disks =
        seqE (checkDeviceReadable env ?dev) (seqE (checkDeviceNotMounted env ?dev)
         (seqE (if \<not> ro then checkFilesystemAndFormatIfNeeded env ?dev ext4FsType else returnE ())
           (handleE (createNewMountPath env ''gce-persistent-disk'' (PdName volume)) throwE
              (\<lambda>path. handleE (mountDevice env (newMount ?dev path ext4FsType [readOnly ?ro])) throwE
                (\<lambda>_. returnE \<lparr>hp_hostPath = path, hp_readOnly = ?ro\<rparr>)))))"
      by (simp only: processGcePersistentDiskVolume_def Let_def guards if_False mount(3) option.case
          resolveGcePersistentDiskDevicePath_def handleE_assoc_return dev)
    have fs: "emits calls (if \<not> ro then checkFilesystemAndFormatIfNeeded env ?dev ext4FsType else returnE ())
        (good_or_bad (\<lambda>_ evs. if ro then evs = [] else prepared_fs env ?dev evs)
          (\<lambda>evs. mounts_nothing env evs \<and> (ro \<longrightarrow> fs_untouched evs)))"
      by (cases ro) (auto intro!: emits_return emits_weaken [OF emits_checkFilesystem]
          simp: good_or_bad_def intro: mounts_nothing_inspects mounts_nothing_attempt split: outcome.splits)
    have "emits calls (processGcePersistentDiskVolume env volume wantsRW disks) (\<lambda>evs. good_or_bad ?good ?bad ([] @ evs))"
      unfolding eq
    proof (rule emits_seq_then [OF emits_checkDeviceReadable], goal_cases)
      case (1 u evs1)
      then obtain info where e1: "evs1 = [CStat ?dev (Ok (Some info))]" "block_device info" by blast
      show ?case
        unfolding append_Nil
      proof (rule emits_seq_then [OF emits_checkDeviceNotMounted], goal_cases)
        case (1 u evs2)
        then obtain out where e2: "evs2 = [CRun (lsblk_command env ''MOUNTPOINT'' ?dev) (Ok out)]" "TrimSpace out = []" by blast
        show ?case
          unfolding append_assoc [of evs1 evs2, symmetric]
        proof (rule emits_seq_then [OF fs], goal_cases)
          case (1 u evs3)
          show ?case
            unfolding append_assoc [of "evs1 @ evs2" evs3, symmetric]
          proof (rule emits_weaken [OF emits_mount_at_new_path], goal_cases)
            case (2 evs r)
            with 1 e1 e2 mount show ?case
              by (auto simp: good_or_bad_def Let_def pd_mounted_def pd_mount_def mnt prepared_fs_def
                  intro: mounts_nothing_attempt split: outcome.splits if_splits)
          qed (simp add: mnt)
        qed (use e1 e2 mount in auto)
      qed (use e1 mount in \<open>auto intro: mounts_nothing_inspects fs_untouched_inspects\<close>)
    qed (use mount in \<open>auto intro: mounts_nothing_inspects fs_untouched_inspects\<close>)
    then show ?thesis by simp
  next
    case fs
    then show ?thesis unfolding processGcePersistentDiskVolume_def if_P [OF fs] by (intro throw)
  next
    case name
    then have "(FsType volume \<noteq> [] \<and> FsType volume \<noteq> ext4FsType) = False" "(PdName volume = []) = True" by auto
    then have "\<exists>e. processGcePersistentDiskVolume env volume wantsRW disks = throwE e"
      unfolding processGcePersistentDiskVolume_def Let_def by (simp only: if_False if_True) blast
    then show ?thesis using throw by metis
  next
    case unknown
    then have "(FsType volume \<noteq> [] \<and> FsType volume \<noteq> ext4FsType) = False" "(PdName volume = []) = False" by auto
    then have "\<exists>e. processGcePersistentDiskVolume env volume wantsRW disks = throwE e"
      unfolding processGcePersistentDiskVolume_def Let_def by (simp only: if_False unknown(3) option.case) blast
    then show ?thesis using throw by metis
  next
    case denied
    then have "(FsType volume \<noteq> [] \<and> FsType volume \<noteq> ext4FsType) = False" "(PdName volume = []) = False"
      "(ro \<and> wantsRW) = True" by auto
    then have "\<exists>e. processGcePersistentDiskVolume env volume wantsRW disks = throwE e"
      unfolding processGcePersistentDiskVolume_def Let_def by (simp only: if_False if_True denied(3) option.case) blast
    then show ?thesis using throw by metis
  qed
qed

end

section \<open>The formatting policy\<close>

text \<open>
  Every use of a filesystem tool is directly preceded by the answer of \<open>lsblk\<close> about the same
  device that chooses it: \<open>mkfs\<close> after an empty filesystem type, \<open>fsck\<close> after ext4.
\<close>

definition is_fs_tool :: "call \<Rightarrow> bool" where
  "is_fs_tool ev \<longleftrightarrow> (\<exists>found dev x. ev = CRun (fs_tool found dev) x)"

definition fs_guard :: "'w Env \<Rightarrow> call \<Rightarrow> call \<Rightarrow> bool" where
  "fs_guard env g ev \<longleftrightarrow> (\<exists>dev out x. g = CRun (lsblk_command env ''FSTYPE'' dev) (Ok out) \<and>
     TrimSpace out \<in> {[], ext4FsType} \<and> ev = CRun (fs_tool (TrimSpace out) dev) x)"

abbreviation fs_guarded :: "'w Env \<Rightarrow> call list \<Rightarrow> bool" where
  "fs_guarded env \<equiv> guarded is_fs_tool (fs_guard env)"

lemma no_fs_tool [simp]:
  "\<not> is_fs_tool (CStat p y)" "\<not> is_fs_tool (CMkdirAll p m z)" "\<not> is_fs_tool (CDisks d)"
  "\<not> is_fs_tool (CRun (wrapToEnterHostMountNamespace env (''lsblk'' # args)) x)"
  "\<not> is_fs_tool (CRun (mount_command env mnt) x)"
  "\<not> is_fs_tool (CRun (umount_command env mnt) x)"
  "\<not> is_fs_tool (CRun (list_command env) x)"
  by (auto simp: is_fs_tool_def fs_tool_def mount_command_def umount_command_def list_command_def wrap_heads)

lemma inspects_no_fs_tool: "inspects env ev \<Longrightarrow> \<not> is_fs_tool ev"
  by (auto simp: inspects_def)

lemma fs_attempt_guarded: "fs_attempt env dev x evs \<Longrightarrow> fs_guarded env evs"
  by (auto simp: fs_attempt_def guarded_def lsblk_command_def fs_guard_def)

text \<open>The calls the package makes.\<close>

fun volume_call :: "call \<Rightarrow> bool" where
  "volume_call (CRun _ _) = True"
| "volume_call (CMkdirAll _ _ _) = True"
| "volume_call (CStat _ _) = True"
| "volume_call (CDisks _) = True"
| "volume_call _ = False"

text \<open>
  A policy that admits every single call but those of the filesystem tools, and admits these behind
  their \<open>lsblk\<close>, is kept by every operation of the package.
\<close>

locale volume_policy = volumes_env env + trace_policy ok "calls :: 'w st \<Rightarrow> call list"
  for env :: "'w Env" and ok +
  assumes ok_call: "volume_call ev \<Longrightarrow> \<not> is_fs_tool ev \<Longrightarrow> ok [ev]"
    and ok_attempt: "fs_attempt env dev x evs \<Longrightarrow> ok evs"
begin

lemma ok_calls: "\<forall>ev \<in> set evs. volume_call ev \<and> \<not> is_fs_tool ev \<Longrightarrow> ok evs"
proof (induction evs)
  case (Cons ev evs)
  then show ?case using ok_append [of "[ev]" evs] ok_call [of ev] by simp
qed (rule ok_Nil)

lemma ok_inspections: "\<forall>ev \<in> set evs. inspects env ev \<Longrightarrow> ok evs"
  by (rule ok_calls) (auto simp: inspects_def)

lemma keeps_calls:
  assumes "emits calls m S" and "\<And>evs r ev. S evs r \<Longrightarrow> ev \<in> set evs \<Longrightarrow> volume_call ev \<and> \<not> is_fs_tool ev"
  shows "keeps calls ok m"
  using assms by (blast intro: keepsI ok_calls)

lemma keeps_log: "keeps calls ok (log_Printf msg :: ('w st, unit) go)"
  by (rule keeps_silent) simp

lemma keeps_checkFilesystem: "keeps calls ok (checkFilesystemAndFormatIfNeeded env dev ext4FsType)"
  by (rule keepsI [OF emits_checkFilesystem])
    (auto simp: good_or_bad_def prepared_fs_def intro: ok_attempt ok_inspections split: outcome.splits)

lemma keeps_checks:
  "keeps calls ok (checkDeviceNotMounted env dev)"
  "keeps calls ok (checkDeviceReadable env dev)"
proof -
  show "keeps calls ok (checkDeviceNotMounted env dev)"
    by (rule keepsI [OF emits_checkDeviceNotMounted])
      (auto simp: good_or_bad_def lsblk_command_def intro: ok_inspections ok_calls split: outcome.splits)
  show "keeps calls ok (checkDeviceReadable env dev)"
    by (rule keepsI [OF emits_checkDeviceReadable])
      (auto simp: good_or_bad_def intro: ok_inspections ok_calls split: outcome.splits)
qed

lemma keeps_changes:
  "keeps calls ok (createNewMountPath env family name)"
  "keeps calls ok (mountDevice env mnt)"
  "keeps calls ok (unmountDevice env mnt)"
  "keeps calls ok (existingMounts env)"
  "keeps calls ok (call_Disks (env_Metadata env))"
proof -
  show "keeps calls ok (createNewMountPath env family name)"
    by (rule keeps_calls [OF emits_createNewMountPath]) (auto simp: good_or_bad_def split: outcome.splits)
  show "keeps calls ok (mountDevice env mnt)"
    by (rule keeps_calls [OF emits_mountDevice]) auto
  show "keeps calls ok (unmountDevice env mnt)"
    by (rule keeps_calls [OF emits_unmountDevice]) auto
  show "keeps calls ok (existingMounts env)"
    by (rule keeps_calls [OF emits_existingMounts]) auto
  show "keeps calls ok (call_Disks (env_Metadata env))"
    by (rule keeps_calls [OF provider.emits_Disks]) auto
qed

lemma keeps_lift_result: "keeps calls ok (lift_result x :: ('w st, 'b) go)"
  by (cases x) (simp_all add: keeps_basic)

lemmas keeps_leaves = keeps_log keeps_checkFilesystem keeps_checks keeps_changes keeps_lift_result

lemma keeps_volumes:
  "keeps calls ok (processEmptyDirVolume env ed name)"
  "keeps calls ok (processHostPathVolume env hp)"
  "keeps calls ok (processGcePersistentDiskVolume env pd wantsRW disks)"
  "keeps calls ok (buildDiskMetadataReadOnlyMap env)"
  "keeps calls ok (UnmountExistingVolumes env)"
  unfolding processEmptyDirVolume_def processMemoryBackedEmptyDirVolume_def processHostPathVolume_def
    processGcePersistentDiskVolume_def resolveGcePersistentDiskDevicePath_def buildDiskMetadataReadOnlyMap_def
    UnmountExistingVolumes_def Let_def
  by (auto intro!: keeps_rules keeps_leaves split: option.split sum.split)

end

text \<open>The two policies: only calls of the package, and guarded filesystem tools.\<close>

interpretation host_calls: volume_policy "production_env vflags sys parse ord" "list_all volume_call" for vflags sys parse ord
  by unfold_locales (auto simp: fs_attempt_def)

interpretation fs_policy: volume_policy "production_env vflags sys parse ord" "fs_guarded (production_env vflags sys parse ord)" for vflags sys parse ord
  by unfold_locales (auto simp: guarded_uncritical intro: fs_attempt_guarded guarded.ok_append guarded.ok_Nil)

context reliable_env
begin

lemma returns_lift_result [returns_intros]: "returns (lift_result x)"
  by (cases x) simp_all

lemma returns_checkDeviceReadable [returns_intros]: "returns (checkDeviceReadable env dev)"
  unfolding returns_def
proof (intro allI)
  fix s p
  obtain r s' where st: "call_Stat (env_Runner env) dev s = (r, s')" by (cases "call_Stat (env_Runner env) dev s")
  have "r \<noteq> Panic p" by (rule returnsD [OF runner.calls_return(3) st])
  moreover have "r \<noteq> Ok None" using st runner.Stat_info by metis
  ultimately show "fst (checkDeviceReadable env dev s) \<noteq> Panic p"
    using st by (cases r) (auto simp: checkDeviceReadable_def handleE_def split: option.split)
qed

lemma returns_lsblk [returns_intros]:
  "returns (getSinglePropertyFromDeviceWithLsblk env dev property)"
  unfolding getSinglePropertyFromDeviceWithLsblk_def
  by (intro returns_intros) (simp add: returns_intros)

lemma returns_checks [returns_intros]:
  "returns (checkDeviceNotMounted env dev)"
  "returns (createNewMountPath env family name)"
  "returns (buildDiskMetadataReadOnlyMap env)"
  unfolding checkDeviceNotMounted_def createNewMountPath_def buildDiskMetadataReadOnlyMap_def Let_def
  by (auto intro!: returns_intros runner.calls_return provider.calls_return split: sum.split)

lemma returns_checkFilesystem [returns_intros]: "returns (checkFilesystemAndFormatIfNeeded env dev fs)"
  unfolding checkFilesystemAndFormatIfNeeded_def Let_def
  by (auto intro!: returns_intros split: option.split)

lemma returns_volumes [returns_intros]:
  "returns (processEmptyDirVolume env ed name)"
  "returns (processHostPathVolume env hp)"
  "returns (processGcePersistentDiskVolume env pd wantsRW disks)"
  unfolding processEmptyDirVolume_def processMemoryBackedEmptyDirVolume_def processHostPathVolume_def
    processGcePersistentDiskVolume_def resolveGcePersistentDiskDevicePath_def Let_def
  by (auto intro!: returns_intros split: option.split)

end

section \<open>Properties\<close>

definition valid_entry :: "DiskEntry \<Rightarrow> bool" where
  "valid_entry e \<longleftrightarrow> DeviceName e \<noteq> [] \<and> (Mode e = ''READ_WRITE'' \<or> Mode e = ''READ_ONLY'')"

lemma disk_modes_fill:
  "list_all valid_entry es \<Longrightarrow>
   disk_modes p es m = Inr (foldl (\<lambda>m e. map_put (DeviceName e) (Mode e = ''READ_ONLY'') m) m es)"
  by (induction p es m rule: disk_modes.induct) (auto simp: valid_entry_def)

lemma disk_modes_invalid: "\<not> list_all valid_entry es \<Longrightarrow> \<exists>e. disk_modes p es m = Inl e"
  by (induction p es m rule: disk_modes.induct) (auto simp: valid_entry_def)

text \<open>C21. The disk metadata becomes a map exactly if every entry has a device name and a known mode;
  a disk is then in the map iff it has an entry, and it counts as read-only iff its last entry says
  \<open>READ_ONLY\<close>. Any other metadata is an error.\<close>

theorem disk_modes_correct:
  "case disk_modes es es map_make of
     Inr m \<Rightarrow> list_all valid_entry es \<and>
       map_get m = map_of (rev (map (\<lambda>e. (DeviceName e, Mode e = ''READ_ONLY'')) es))
   | Inl _ \<Rightarrow> \<not> list_all valid_entry es"
proof (cases "list_all valid_entry es")
  case True
  have "map_get (foldl (\<lambda>m e. map_put (DeviceName e) (Mode e = ''READ_ONLY'') m) map_make es) k =
      map_of (rev (map (\<lambda>e. (DeviceName e, Mode e = ''READ_ONLY'')) es)) k" for k
    by (simp add: amap.get_fill amap.get_make split: option.split)
  with True show ?thesis by (simp add: disk_modes_fill fun_eq_iff)
next
  case False
  with disk_modes_invalid [of es es map_make] show ?thesis by auto
qed


text \<open>C20. An empty-directory volume is a tmpfs: a run that succeeds created the mount point below
  konlet's prefix and mounted a writable tmpfs there, nothing else, and gives that path; any other run,
  every medium but \<open>Memory\<close> included, has mounted nothing.\<close>

theorem EmptyDir_trace:
  "emits calls (processEmptyDirVolume (production_env vflags sys parse ord) volume name)
     (good_or_bad (\<lambda>v evs. Medium volume = ''Memory'' \<and>
          v = \<lparr>hp_hostPath = new_mount_path (production_env vflags sys parse ord) ''tmpfs'' name, hp_readOnly = False\<rparr> \<and>
          (\<exists>out. evs = [CMkdirAll (hp_hostPath v) 493 (Ok ()),
             CRun (mount_command (production_env vflags sys parse ord) (tmpfs_mount (production_env vflags sys parse ord) name)) (Ok out)]))
        (mounts_nothing (production_env vflags sys parse ord)))"
  by (rule emits_weaken [OF production.emits_processEmptyDirVolume])
    (auto simp: good_or_bad_def split: outcome.splits)

text \<open>
  What konlet mounts, it finds again: the mount points of both kinds of volumes start with the prefix
  that \<open>existingMounts\<close> looks for.
\<close>

lemma mount_points_have_prefix:
  "HasPrefix (mnt_mountPoint (pd_mount env volume ro)) (env_mountedVolumesPathPrefix env)"
  "HasPrefix (mnt_mountPoint (tmpfs_mount env name)) (env_mountedVolumesPathPrefix env)"
  by (simp_all add: pd_mount_def tmpfs_mount_def new_mount_path_def)

section \<open>The disk metadata as JSON\<close>

text \<open>The members of a disk that matter, as the code spells them.\<close>

definition disk_members :: "string list" where
  "disk_members = [''DeviceName'', ''Mode'']"

lemma entry_fields_eq: "entry_fields = disk_members"
  by (simp add: entry_fields_def disk_members_def)

text \<open>The entry an object of the metadata describes, and the objects that do.\<close>

definition entry_of :: "(string \<times> json) list \<Rightarrow> DiskEntry" where
  "entry_of ms = \<lparr>DeviceName = last_string disk_members ''DeviceName'' ms, Mode = last_string disk_members ''Mode'' ms\<rparr>"

definition describes_disk :: "(string \<times> json) list \<Rightarrow> bool" where
  "describes_disk ms \<longleftrightarrow> (\<forall>(k, v) \<in> set ms. case lookup_field disk_members k of None \<Rightarrow> True | Some _ \<Rightarrow> string_or_null v)"

lemma store_entry_fields:
  assumes "describes_disk ms"
  shows "store_members disk_members (store_entry errs) ms \<lparr>DeviceName = [], Mode = []\<rparr> = Inr (entry_of ms)"
proof -
  let ?get = "\<lambda>g e. if g = ''DeviceName'' then DeviceName e else Mode e"
  have "\<exists>x. store_members disk_members (store_entry errs) ms \<lparr>DeviceName = [], Mode = []\<rparr> = Inr x
      \<and> (\<forall>g \<in> set disk_members. ?get g x = last_string disk_members g ms)"
    by (rule store_members_strings)
      (use assms in \<open>auto simp: store_entry_def store_string_ok describes_disk_def disk_members_def\<close>)
  then show ?thesis by (auto simp: disk_members_def entry_of_def)
qed

lemma Unmarshal_disks_text:
  assumes "text_of (JArray (map JObject mss)) text" and "list_all describes_disk mss"
  shows "Unmarshal_disks errs text = Inr (map entry_of mss)"
proof -
  have "store_elements (\<lambda>v. store_struct errs disk_members (store_entry errs) v \<lparr>DeviceName = [], Mode = []\<rparr>) (map JObject mss)
      = Inr (map entry_of mss)"
    using assms(2) by (intro store_elements_all) (simp add: store_struct_def store_entry_fields entry_fields_eq list_all_iff)
  with parse_text_of [OF assms(1)] show ?thesis
    by (simp add: Unmarshal_disks_def Unmarshal_def store_slice_def entry_fields_eq)
qed

text \<open>
  What the metadata server answers: keys in camel case, and more members than the program reads.
\<close>

definition server_disk :: "string \<Rightarrow> string \<Rightarrow> (string \<times> json) list" where
  "server_disk device m = [(''deviceName'', JString device), (''index'', JNumber ''0''),
     (''interface'', JString ''SCSI''), (''mode'', JString m), (''type'', JString ''PERSISTENT'')]"

lemma server_fields:
  "lookup_field disk_members ''deviceName'' = Some ''DeviceName''" "lookup_field disk_members ''mode'' = Some ''Mode''"
  "lookup_field disk_members ''index'' = None" "lookup_field disk_members ''interface'' = None"
  "lookup_field disk_members ''type'' = None"
  by (simp_all add: lookup_field_def disk_members_def folded_ascii is_ascii_def fold_rune_def)

lemma entry_of_server: "entry_of (server_disk device m) = \<lparr>DeviceName = device, Mode = m\<rparr>"
  and describes_server: "describes_disk (server_disk device m)"
  by (simp_all add: entry_of_def server_disk_def last_string_def server_fields describes_disk_def string_or_null_def)

lemma idle_disks: "Unmarshal_disks idle_errors idle_body = Inr [\<lparr>DeviceName = ''pd'', Mode = ''READ_WRITE''\<rparr>]"
proof -
  let ?ms = "[(''deviceName'', JString ''pd''), (''index'', JNumber ''0''), (''mode'', JString ''READ_WRITE'')]"
  have "text_of (JArray (map JObject [?ms])) idle_body"
    unfolding idle_body_def list.map
    by (rule text_of_compact) (simp_all add: maxNestingDepth_def number_ok_def fraction_ok_def number_char_def in_range_def is_ascii_def)
  from Unmarshal_disks_text [OF this] show ?thesis
    by (simp add: describes_disk_def server_fields string_or_null_def entry_of_def last_string_def)
qed



end
