(* ===== verification/Prepare.thy ===== *)
theory Prepare
  imports Volumes
begin

text \<open>
  \<open>PrepareVolumesAndGetBindings\<close> of \<open>volumes/volumes.go\<close>: the check that volumes and
  volume mounts refer to each other, the loop that prepares every volume, and the bindings handed to
  the container runtime.
\<close>

section \<open>References between containers and volumes\<close>

record HostPathBindConfiguration =
  bc_HostPath :: string
  bc_ContainerPath :: string
  bc_ReadOnly :: bool

type_synonym reference_maps = "int go_map \<times> bool go_map"

definition init_references :: "Volume list \<Rightarrow> reference_maps" where
  "init_references vs = foldl (\<lambda>(volumesReferencesCount, volumeMountWantsReadWriteMap) apiVolume.
     (map_put (vol_Name apiVolume) 0 volumesReferencesCount,
      map_put (vol_Name apiVolume) False volumeMountWantsReadWriteMap)) (map_make, map_make) vs"

text \<open>The volume mounts of one container. A missing key of the second map reads as false.\<close>

fun count_mounts :: "string \<Rightarrow> nat \<Rightarrow> VolumeMount list \<Rightarrow> reference_maps \<Rightarrow> go_error + reference_maps" where
  "count_mounts containerName containerIndex [] m = Inr m"
| "count_mounts containerName containerIndex (volumeMount # rest) (counts, wants) =
     (case map_get counts (vm_Name volumeMount) of
        None \<Rightarrow> Inl (ErrorString (''Invalid container declaration: Volume '' @ vm_Name volumeMount @
          '' referenced in container '' @ containerName @ '' (index: '' @ fmt_d (int containerIndex) @
          '') not found in volume definitions.''))
      | Some n \<Rightarrow> count_mounts containerName containerIndex rest
          (map_put (vm_Name volumeMount) (n + 1) counts,
           map_put (vm_Name volumeMount)
             ((map_get wants (vm_Name volumeMount) = Some True) \<or> \<not> vm_ReadOnly volumeMount) wants))"

definition found_message :: "Container \<Rightarrow> string" where
  "found_message container = ''Found '' @ fmt_d (int (length (ct_VolumeMounts container))) @
     '' volume mounts in container '' @ ct_Name container @ '' declaration.''"

definition countReferences :: "ContainerSpecStruct \<Rightarrow> ('w st, reference_maps) go" where
  "countReferences spec =
     foldE (\<lambda>m (containerIndex, container).
         seqE (log_Printf (found_message container))
           (lift_result (count_mounts (ct_Name container) containerIndex (ct_VolumeMounts container) m)))
       (init_references (Volumes spec)) (enumerate 0 (Containers spec))"

section \<open>Preparing the volumes\<close>

text \<open>\<open>v, err = f()\<close> with the error kept in a variable for later.\<close>

definition attempt :: "('s, VolumeHostPathAndMode) go \<Rightarrow> ('s, VolumeHostPathAndMode \<times> go_error option) go" where
  "attempt m = handleE m (\<lambda>e. returnE (\<lparr>hp_hostPath = [], hp_readOnly = False\<rparr>, Some e)) (\<lambda>v. returnE (v, None))"

text \<open>
  One of the three \<open>if apiVolume.X != nil\<close> blocks: it counts the definition and overwrites
  both variables.
\<close>

definition source :: "'v option \<Rightarrow> ('v \<Rightarrow> ('s, VolumeHostPathAndMode) go) \<Rightarrow>
    nat \<times> VolumeHostPathAndMode \<times> go_error option \<Rightarrow> ('s, nat \<times> VolumeHostPathAndMode \<times> go_error option) go" where
  "source definition_given process vars =
     (case definition_given of
        None \<Rightarrow> returnE vars
      | Some v \<Rightarrow> bindE (attempt (process v))
          (\<lambda>(volumeHostPathAndMode, processError). returnE (fst vars + 1, volumeHostPathAndMode, processError)))"

definition processVolume :: "'w Env \<Rightarrow> bool go_map \<Rightarrow> bool go_map \<Rightarrow> Volume \<Rightarrow> ('w st, VolumeHostPathAndMode) go" where
  "processVolume env volumeMountWantsReadWriteMap diskMetadataReadOnlyMap apiVolume =
     (case map_get volumeMountWantsReadWriteMap (vol_Name apiVolume) of
        None \<Rightarrow> throwE (ErrorString (''apiVolume '' @ vol_Name apiVolume @ '' not found in the volumeMount RW map. This should not happen.''))
      | Some volumeMountWantsReadWrite \<Rightarrow>
          bindE (source (vol_HostPath apiVolume) (processHostPathVolume env)
                   (0, \<lparr>hp_hostPath = [], hp_readOnly = False\<rparr>, None)) (\<lambda>vars.
          bindE (source (vol_EmptyDir apiVolume) (\<lambda>v. processEmptyDirVolume env v (vol_Name apiVolume)) vars) (\<lambda>vars.
          bindE (source (vol_GcePersistentDisk apiVolume)
                   (\<lambda>v. processGcePersistentDiskVolume env v volumeMountWantsReadWrite diskMetadataReadOnlyMap) vars)
          (\<lambda>(definitions, volumeHostPathAndMode, processError).
             if definitions \<noteq> 1
             then throwE (ErrorString (''Invalid container declaration: Exactly one volume specification required for volume '' @
               vol_Name apiVolume @ '', '' @ fmt_d (int definitions) @ '' found.''))
             else (case processError of
                 Some e \<Rightarrow> throwE (ErrorString (''Volume '' @ vol_Name apiVolume @ '': '' @ Error e))
               | None \<Rightarrow> returnE volumeHostPathAndMode)))))"

definition buildVolumeNameToHostPathMap :: "'w Env \<Rightarrow> Volume list \<Rightarrow> bool go_map \<Rightarrow> ('w st, VolumeHostPathAndMode go_map) go" where
  "buildVolumeNameToHostPathMap env apiVolumes volumeMountWantsReadWriteMap =
     handleE (buildDiskMetadataReadOnlyMap env)
       (\<lambda>err. throwE (ErrorString (''Failed to build disk read only map from metadata: '' @ Error err)))
       (\<lambda>diskMetadataReadOnlyMap.
          foldE (\<lambda>m apiVolume. bindE (processVolume env volumeMountWantsReadWriteMap diskMetadataReadOnlyMap apiVolume)
              (\<lambda>hp. returnE (map_put (vol_Name apiVolume) hp m)))
            map_make apiVolumes)"

section \<open>Bindings\<close>

fun bind_mounts :: "string \<Rightarrow> VolumeHostPathAndMode go_map \<Rightarrow> VolumeMount list \<Rightarrow> go_error + HostPathBindConfiguration list" where
  "bind_mounts containerName volumes [] = Inr []"
| "bind_mounts containerName volumes (volumeMount # rest) =
     (let hp = (case map_get volumes (vm_Name volumeMount) of Some hp \<Rightarrow> hp
                | None \<Rightarrow> \<lparr>hp_hostPath = [], hp_readOnly = False\<rparr>)
      in if hp_readOnly hp \<and> \<not> vm_ReadOnly volumeMount
         then Inl (ErrorString (''Container '' @ containerName @ '': volumeMount '' @ vm_Name volumeMount @
           '' specifies read-write access, but underlying volume is read-only.''))
         else map_sum id (\<lambda>binds. \<lparr>bc_HostPath = hp_hostPath hp, bc_ContainerPath = vm_MountPath volumeMount,
             bc_ReadOnly = vm_ReadOnly volumeMount\<rparr> # binds) (bind_mounts containerName volumes rest))"

fun bind_containers :: "VolumeHostPathAndMode go_map \<Rightarrow> Container list \<Rightarrow> HostPathBindConfiguration list go_map
    \<Rightarrow> go_error + HostPathBindConfiguration list go_map" where
  "bind_containers volumes [] m = Inr m"
| "bind_containers volumes (container # rest) m =
     (case bind_mounts (ct_Name container) volumes (ct_VolumeMounts container) of
        Inl e \<Rightarrow> Inl e
      | Inr hostPathBinds \<Rightarrow> bind_containers volumes rest (map_put (ct_Name container) hostPathBinds m))"

definition PrepareVolumesAndGetBindings :: "'w Env \<Rightarrow> ContainerSpecStruct \<Rightarrow> ('w st, HostPathBindConfiguration list go_map) go" where
  "PrepareVolumesAndGetBindings env spec =
     bindE (countReferences spec) (\<lambda>(volumesReferencesCount, volumeMountWantsReadWriteMap).
       case find (\<lambda>(volumeName, referenceCount). referenceCount = 0) (map_range (env_Order env) volumesReferencesCount) of
         Some (volumeName, _) \<Rightarrow>
           throwE (ErrorString (''Invalid container declaration: Volume '' @ volumeName @ '' not referenced by any container.''))
       | None \<Rightarrow>
           bindE (buildVolumeNameToHostPathMap env (Volumes spec) volumeMountWantsReadWriteMap)
             (\<lambda>volumeNameToHostPathMap. lift_result (bind_containers volumeNameToHostPathMap (Containers spec) map_make)))"

section \<open>What the reference check computes\<close>

definition mounts_of :: "ContainerSpecStruct \<Rightarrow> VolumeMount list" where
  "mounts_of spec = concat (map ct_VolumeMounts (Containers spec))"

definition volume_names :: "ContainerSpecStruct \<Rightarrow> string set" where
  "volume_names spec = set (map vol_Name (Volumes spec))"

definition references :: "VolumeMount list \<Rightarrow> string \<Rightarrow> nat" where
  "references vms n = length (filter (\<lambda>vm. vm_Name vm = n) vms)"

definition wants_rw :: "VolumeMount list \<Rightarrow> string \<Rightarrow> bool" where
  "wants_rw vms n \<longleftrightarrow> list_ex (\<lambda>vm. vm_Name vm = n \<and> \<not> vm_ReadOnly vm) vms"

text \<open>The two maps after some volume mounts were counted: their domain is the declared volumes.\<close>

definition counted :: "string set \<Rightarrow> VolumeMount list \<Rightarrow> reference_maps \<Rightarrow> bool" where
  "counted names vms m \<longleftrightarrow>
     (\<forall>n. map_get (fst m) n = (if n \<in> names then Some (int (references vms n)) else None)) \<and>
     (\<forall>n. map_get (snd m) n = (if n \<in> names then Some (wants_rw vms n) else None))"

lemma init_references_eq:
  "init_references vs = (foldl (\<lambda>m v. map_put (vol_Name v) 0 m) map_make vs, foldl (\<lambda>m v. map_put (vol_Name v) False m) map_make vs)"
proof -
  have "foldl (\<lambda>(c, w) v. (map_put (vol_Name v) 0 c, map_put (vol_Name v) False w)) (c0, w0) vs =
      (foldl (\<lambda>m v. map_put (vol_Name v) 0 m) c0 vs, foldl (\<lambda>m v. map_put (vol_Name v) False m) w0 vs)" for c0 :: "int go_map" and w0
    by (induction vs arbitrary: c0 w0) auto
  then show ?thesis by (simp add: init_references_def)
qed

lemma map_of_const: "map_of (rev (map (\<lambda>v. (f v, c)) vs)) n = (if n \<in> f ` set vs then Some c else None)"
  by (induction vs) (auto simp: map_add_def split: option.split)

lemma counted_init: "counted (set (map vol_Name vs)) [] (init_references vs)"
  by (auto simp: counted_def init_references_eq amap.get_fill amap.get_make map_of_const references_def wants_rw_def)

lemma counted_step:
  assumes "counted names vms (c, w)" and "map_get c (vm_Name vm) = Some n"
  shows "counted names (vms @ [vm]) (map_put (vm_Name vm) (n + 1) c,
     map_put (vm_Name vm) ((map_get w (vm_Name vm) = Some True) \<or> \<not> vm_ReadOnly vm) w)"
  using assms by (auto simp: counted_def amap.get_put references_def wants_rw_def split: if_splits)

lemma count_mounts_correct:
  "counted names vms m \<Longrightarrow>
   (case count_mounts cn ci vms_more m of
      Inr m' \<Rightarrow> vm_Name ` set vms_more \<subseteq> names \<and> counted names (vms @ vms_more) m'
    | Inl _ \<Rightarrow> \<not> vm_Name ` set vms_more \<subseteq> names)"
proof (induction cn ci vms_more m arbitrary: vms rule: count_mounts.induct)
  case (2 cn ci vm rest c w)
  show ?case
  proof (cases "map_get c (vm_Name vm)")
    case None
    with 2 show ?thesis by (auto simp: counted_def split: if_splits)
  next
    case (Some n)
    with 2(2) have "vm_Name vm \<in> names" by (auto simp: counted_def split: if_splits)
    with 2(1) [OF Some counted_step [OF 2(2) Some]] Some show ?thesis
      by (auto split: sum.splits)
  qed
qed simp

lemma silent_lift_result [simp, intro]: "silent obs (lift_result x)"
  by (cases x) simp_all

lemma silent_foldE: "(\<And>b x. x \<in> set xs \<Longrightarrow> silent obs (f b x)) \<Longrightarrow> silent obs (foldE f b xs)"
  by (induction xs arbitrary: b) (auto simp only: foldE.simps list.set insert_iff intro!: silent_handle)

lemma silent_countReferences: "silent calls (countReferences spec)"
  unfolding countReferences_def by (auto intro!: silent_foldE silent_seq)

text \<open>The loop over the containers, as a statement on its outcome.\<close>

lemma countReferences_loop:
  "counted names vms m \<Longrightarrow>
   foldE (\<lambda>m (i, ct). seqE (log_Printf (msg ct)) (lift_result (count_mounts (ct_Name ct) i (ct_VolumeMounts ct) m)))
     m (enumerate k cts) s = (r, s') \<Longrightarrow>
   (case r of Ok m' \<Rightarrow> vm_Name ` set (concat (map ct_VolumeMounts cts)) \<subseteq> names
        \<and> counted names (vms @ concat (map ct_VolumeMounts cts)) m'
    | Err _ \<Rightarrow> \<not> vm_Name ` set (concat (map ct_VolumeMounts cts)) \<subseteq> names
    | Panic _ \<Rightarrow> False)"
proof (induction cts arbitrary: vms m k s)
  case Nil
  then show ?case by auto
next
  case (Cons ct cts)
  note step = count_mounts_correct [OF Cons.prems(1), where cn = "ct_Name ct" and ci = k and vms_more = "ct_VolumeMounts ct"]
  show ?case
  proof (cases "count_mounts (ct_Name ct) k (ct_VolumeMounts ct) m")
    case (Inl e)
    with Cons.prems(2) have "r = Err e" by (simp add: handleE_def seqE_def log_Printf_def)
    moreover from Inl step have "\<not> vm_Name ` set (ct_VolumeMounts ct) \<subseteq> names" by simp
    ultimately show ?thesis by (simp add: image_Un)
  next
    case (Inr m')
    with Cons.prems(2) have rest: "foldE (\<lambda>m (i, ct). seqE (log_Printf (msg ct)) (lift_result (count_mounts (ct_Name ct) i (ct_VolumeMounts ct) m)))
        m' (enumerate (Suc k) cts) (s\<lparr>logs := logs s @ [msg ct]\<rparr>) = (r, s')"
      by (simp add: handleE_def seqE_def log_Printf_def)
    from Inr step have sub: "vm_Name ` set (ct_VolumeMounts ct) \<subseteq> names"
      and "counted names (vms @ ct_VolumeMounts ct) m'" by auto
    from Cons.IH [OF this(2) rest] sub show ?thesis
      by (cases r) (auto simp: image_Un)
  qed
qed

lemma countReferences_correct:
  assumes "countReferences spec s = (r, s')"
  shows "case r of Ok m \<Rightarrow> vm_Name ` set (mounts_of spec) \<subseteq> volume_names spec \<and> counted (volume_names spec) (mounts_of spec) m
    | Err _ \<Rightarrow> \<not> vm_Name ` set (mounts_of spec) \<subseteq> volume_names spec
    | Panic _ \<Rightarrow> False"
proof -
  note loop = countReferences_loop [OF counted_init [of "Volumes spec"] assms [unfolded countReferences_def]]
  show ?thesis
    using loop unfolding mounts_of_def volume_names_def append_Nil .
qed

section \<open>The run of one volume\<close>

text \<open>
  \<open>volume_run env wants disks v hp evs\<close>: the volume has exactly one definition, and the calls
  and the resulting host path are those of its kind.
\<close>

definition volume_run :: "'w Env \<Rightarrow> bool \<Rightarrow> bool go_map \<Rightarrow> Volume \<Rightarrow> VolumeHostPathAndMode \<Rightarrow> call list \<Rightarrow> bool" where
  "volume_run env wants disks v hp evs \<longleftrightarrow>
     (case (vol_HostPath v, vol_EmptyDir v, vol_GcePersistentDisk v) of
        (Some h, None, None) \<Rightarrow> evs = [] \<and> hp = \<lparr>hp_hostPath = Path h, hp_readOnly = False\<rparr>
      | (None, Some ed, None) \<Rightarrow> Medium ed = ''Memory'' \<and>
          hp = \<lparr>hp_hostPath = new_mount_path env ''tmpfs'' (vol_Name v), hp_readOnly = False\<rparr> \<and>
          (\<exists>out. evs = [CMkdirAll (hp_hostPath hp) 493 (Ok ()), CRun (mount_command env (tmpfs_mount env (vol_Name v))) (Ok out)])
      | (None, None, Some pd) \<Rightarrow> FsType pd \<in> {[], ext4FsType} \<and> PdName pd \<noteq> [] \<and>
          (\<exists>ro. map_get disks (PdName pd) = Some ro \<and> \<not> (ro \<and> wants) \<and> pd_mounted env pd wants ro hp evs)
      | _ \<Rightarrow> False)"

text \<open>The run of all volumes: the disk metadata, then one run after the other.\<close>

definition volumes_prepared :: "'w Env \<Rightarrow> bool go_map \<Rightarrow> Volume list \<Rightarrow> VolumeHostPathAndMode go_map \<Rightarrow> call list \<Rightarrow> bool" where
  "volumes_prepared env wants vs m evs \<longleftrightarrow>
     (\<exists>json es disks runs. env_ParseDisks env json = Inr es \<and> disk_modes es es map_make = Inr disks
       \<and> list_all2 (\<lambda>v (hp, t). \<exists>w. map_get wants (vol_Name v) = Some w \<and> volume_run env w disks v hp t) vs runs
       \<and> evs = CDisks (Ok json) # concat (map snd runs)
       \<and> m = foldl (\<lambda>m (v, hp). map_put (vol_Name v) hp m) map_make (zip vs (map fst runs)))"

lemma emits_source:
  assumes "\<And>x. v = Some x \<Longrightarrow> emits obs (process x) (good_or_bad (good x) (bad x))"
  shows "emits obs (source v process vars)
     (\<lambda>evs r. \<forall>d' hp' e'. r = Ok (d', hp', e') \<longrightarrow>
        (case v of None \<Rightarrow> evs = [] \<and> (d', hp', e') = vars
         | Some x \<Rightarrow> d' = fst vars + 1 \<and> (e' = None \<longrightarrow> good x hp' evs)))"
proof (cases v)
  case None
  then show ?thesis by (auto simp: source_def intro!: emits_return)
next
  case (Some x)
  have "emits obs (attempt (process x)) (\<lambda>evs r. \<forall>hp'. r = Ok (hp', None) \<longrightarrow> good x hp' evs)"
    unfolding attempt_def by (rule emits_handle [OF assms [OF Some]]) (auto intro!: emits_return)
  then have "emits obs (bindE (attempt (process x)) (\<lambda>(hp, e). returnE (fst vars + 1, hp, e)))
     (\<lambda>evs r. \<forall>d' hp' e'. r = Ok (d', hp', e') \<longrightarrow> d' = fst vars + 1 \<and> (e' = None \<longrightarrow> good x hp' evs))"
    unfolding bindE_def by (rule emits_handle) (auto intro!: emits_return emits_throw)
  then show ?thesis using Some by (simp add: source_def)
qed

context volumes_env
begin

lemma emits_processHostPathVolume:
  "emits calls (processHostPathVolume env h)
     (good_or_bad (\<lambda>hp evs. evs = [] \<and> hp = \<lparr>hp_hostPath = Path h, hp_readOnly = False\<rparr>) (\<lambda>_. True))"
  unfolding processHostPathVolume_def by (rule emits_return) simp

lemma emits_processVolume:
  "emits calls (processVolume env wants disks v)
     (\<lambda>evs r. \<forall>hp. r = Ok hp \<longrightarrow> (\<exists>w. map_get wants (vol_Name v) = Some w \<and> volume_run env w disks v hp evs))"
proof (cases "map_get wants (vol_Name v)")
  case None
  then show ?thesis by (auto simp: processVolume_def intro!: emits_throw)
next
  case (Some w)
  show ?thesis
    unfolding processVolume_def Some option.case bindE_def
  proof (rule emits_handle [OF emits_source [OF emits_processHostPathVolume]], goal_cases)
    case (1 vars1 evs1)
    note s1 = 1
    show ?case
    proof (rule emits_handle [OF emits_source [OF emits_processEmptyDirVolume]], goal_cases)
      case (1 vars2 evs2)
      note s2 = 1
      show ?case
      proof (rule emits_handle [OF emits_source [OF emits_processGcePersistentDiskVolume]], goal_cases)
        case (1 vars3 evs3)
        obtain d hp e where v3: "vars3 = (d, hp, e)" by (cases vars3) auto
        obtain d2 hp2 e2 where v2: "vars2 = (d2, hp2, e2)" by (cases vars2) auto
        obtain d1 hp1 e1 where v1: "vars1 = (d1, hp1, e1)" by (cases vars1) auto
        have run: "volume_run env w disks v hp (evs1 @ evs2 @ evs3)" if "d = 1" "e = None"
          using 1 [rule_format, of d hp e] s2 [rule_format, of d2 hp2 e2] s1 [rule_format, of d1 hp1 e1] v1 v2 v3 that
          by (cases "vol_HostPath v"; cases "vol_EmptyDir v"; cases "vol_GcePersistentDisk v")
            (simp_all add: volume_run_def)
        show ?case
          unfolding v3 prod.case
          by (cases "d = 1"; cases e) (auto intro!: emits_return emits_throw run)
      qed (auto intro!: emits_throw)
    qed (auto intro!: emits_throw)
  qed (auto intro!: emits_throw)
qed

lemma emits_buildDiskMetadata:
  "emits calls (buildDiskMetadataReadOnlyMap env)
     (\<lambda>evs r. \<forall>disks. r = Ok disks \<longrightarrow> (\<exists>json es. evs = [CDisks (Ok json)] \<and> env_ParseDisks env json = Inr es \<and>
        disk_modes es es map_make = Inr disks))"
  unfolding buildDiskMetadataReadOnlyMap_def
proof (rule emits_handle [OF provider.emits_Disks], goal_cases)
  case (1 json evs0)
  show ?case
  proof (cases "env_ParseDisks env json")
    case (Inr es)
    with 1 show ?thesis
      by (cases "disk_modes es es map_make") (auto intro!: emits_return emits_throw)
  qed (auto intro!: emits_throw)
qed (auto intro!: emits_throw)

text \<open>The volumes prepared in order, each with its own stretch of the trace.\<close>

lemma emits_prepare_loop:
  "emits calls (foldE (\<lambda>m v. bindE (processVolume env wants disks v) (\<lambda>hp. returnE (map_put (vol_Name v) hp m))) m vs)
     (\<lambda>evs r. \<forall>m'. r = Ok m' \<longrightarrow> (\<exists>runs. list_all2 (\<lambda>v (hp, t). \<exists>w. map_get wants (vol_Name v) = Some w \<and> volume_run env w disks v hp t) vs runs
        \<and> evs = concat (map snd runs)
        \<and> m' = foldl (\<lambda>m (v, hp). map_put (vol_Name v) hp m) m (zip vs (map fst runs))))"
proof (induction vs arbitrary: m)
  case Nil
  show ?case unfolding foldE.simps by (rule emits_return) simp
next
  case (Cons v vs)
  have "emits calls (bindE (processVolume env wants disks v) (\<lambda>hp. returnE (map_put (vol_Name v) hp m)))
     (\<lambda>evs r. \<forall>m'. r = Ok m' \<longrightarrow> (\<exists>hp w. map_get wants (vol_Name v) = Some w \<and> volume_run env w disks v hp evs
        \<and> m' = map_put (vol_Name v) hp m))"
    unfolding bindE_def by (rule emits_handle [OF emits_processVolume]) (auto intro!: emits_return emits_throw)
  then show ?case
    unfolding foldE.simps
  proof (rule emits_handle, goal_cases)
    case (1 m1 evs1)
    then obtain hp w where run: "map_get wants (vol_Name v) = Some w" "volume_run env w disks v hp evs1"
      "m1 = map_put (vol_Name v) hp m" by blast
    show ?case
    proof (rule emits_weaken [OF Cons.IH [of m1]], intro allI impI)
      fix evs r m'
      assume "\<forall>m'. r = Ok m' \<longrightarrow> (\<exists>runs. list_all2 (\<lambda>v (hp, t). \<exists>w. map_get wants (vol_Name v) = Some w \<and> volume_run env w disks v hp t) vs runs
          \<and> evs = concat (map snd runs) \<and> m' = foldl (\<lambda>m (v, hp). map_put (vol_Name v) hp m) m1 (zip vs (map fst runs)))"
        and "r = Ok m'"
      then obtain runs where "list_all2 (\<lambda>v (hp, t). \<exists>w. map_get wants (vol_Name v) = Some w \<and> volume_run env w disks v hp t) vs runs"
        "evs = concat (map snd runs)" "m' = foldl (\<lambda>m (v, hp). map_put (vol_Name v) hp m) m1 (zip vs (map fst runs))"
        by blast
      with run show "\<exists>runs. list_all2 (\<lambda>v (hp, t). \<exists>w. map_get wants (vol_Name v) = Some w \<and> volume_run env w disks v hp t) (v # vs) runs
          \<and> evs1 @ evs = concat (map snd runs) \<and> m' = foldl (\<lambda>m (v, hp). map_put (vol_Name v) hp m) m (zip (v # vs) (map fst runs))"
        by (intro exI [of _ "(hp, evs1) # runs"]) auto
    qed
  qed (auto intro!: emits_throw)
qed

lemma emits_buildVolumeNameToHostPathMap:
  "emits calls (buildVolumeNameToHostPathMap env vs wants)
     (\<lambda>evs r. \<forall>m. r = Ok m \<longrightarrow> volumes_prepared env wants vs m evs)"
  unfolding buildVolumeNameToHostPathMap_def
proof (rule emits_handle [OF emits_buildDiskMetadata], goal_cases)
  case (1 disks evs0)
  then obtain json es where "evs0 = [CDisks (Ok json)]" "env_ParseDisks env json = Inr es" "disk_modes es es map_make = Inr disks"
    by blast
  then show ?case
    by (intro emits_weaken [OF emits_prepare_loop]) (fastforce simp: volumes_prepared_def)
qed (auto intro!: emits_throw)

end

section \<open>Bindings\<close>

definition binding :: "VolumeHostPathAndMode go_map \<Rightarrow> VolumeMount \<Rightarrow> HostPathBindConfiguration" where
  "binding m vm = \<lparr>bc_HostPath = (case map_get m (vm_Name vm) of Some hp \<Rightarrow> hp_hostPath hp | None \<Rightarrow> []),
     bc_ContainerPath = vm_MountPath vm, bc_ReadOnly = vm_ReadOnly vm\<rparr>"

text \<open>No mount wants to write to a host path that is read-only.\<close>

definition writable_where_wanted :: "VolumeHostPathAndMode go_map \<Rightarrow> VolumeMount list \<Rightarrow> bool" where
  "writable_where_wanted m vms \<longleftrightarrow> (\<forall>vm \<in> set vms. \<exists>hp. map_get m (vm_Name vm) = Some hp \<and> (hp_readOnly hp \<longrightarrow> vm_ReadOnly vm))"

lemma bind_mounts_ok: "writable_where_wanted m vms \<Longrightarrow> bind_mounts cn m vms = Inr (map (binding m) vms)"
  by (induction cn m vms rule: bind_mounts.induct) (auto simp: writable_where_wanted_def binding_def Let_def)

lemma bind_containers_ok:
  "writable_where_wanted m (concat (map ct_VolumeMounts cts)) \<Longrightarrow>
   bind_containers m cts b = Inr (foldl (\<lambda>b ct. map_put (ct_Name ct) (map (binding m) (ct_VolumeMounts ct)) b) b cts)"
proof (induction m cts b rule: bind_containers.induct)
  case (2 m ct cts b)
  then have "writable_where_wanted m (ct_VolumeMounts ct)"
    and rest: "writable_where_wanted m (concat (map ct_VolumeMounts cts))"
    by (auto simp: writable_where_wanted_def)
  then have mounts: "bind_mounts (ct_Name ct) m (ct_VolumeMounts ct) = Inr (map (binding m) (ct_VolumeMounts ct))"
    by (intro bind_mounts_ok)
  show ?case
    by (simp only: bind_containers.simps mounts sum.case 2(1) [OF mounts rest] foldl.simps)
qed simp

lemma volume_run_mode: "volume_run env w disks v hp t \<Longrightarrow> hp_readOnly hp \<Longrightarrow> \<not> w"
  by (auto simp: volume_run_def pd_mounted_def Let_def split: option.splits)

lemma fill_volumes:
  assumes "list_all2 P vs runs" and "n \<in> vol_Name ` set vs"
  obtains v hp t where "v \<in> set vs" "vol_Name v = n" "P v (hp, t)"
    "map_get (foldl (\<lambda>m (v, hp). map_put (vol_Name v) hp m) map_make (zip vs (map fst runs))) n = Some hp"
proof -
  have len: "length vs = length runs" using assms(1) by (rule list_all2_lengthD)
  let ?m = "foldl (\<lambda>m (v, hp). map_put (vol_Name v) hp m) map_make (zip vs (map fst runs))"
  let ?kvs = "map (\<lambda>x. (vol_Name (fst x), snd x)) (zip vs (map fst runs))"
  have m: "?m = foldl (\<lambda>m x. map_put (vol_Name (fst x)) (snd x) m) map_make (zip vs (map fst runs))"
    unfolding split_def ..
  have get: "map_get ?m n = map_of (rev ?kvs) n"
    unfolding m by (simp add: amap.get_fill amap.get_make split: option.split)
  have keys: "fst ` set (zip vs (map fst runs)) = set vs"
    using len by (metis length_map list.set_map map_fst_zip)
  have "vol_Name ` set vs = fst ` set (rev ?kvs)"
    by (simp only: set_rev set_map image_image fst_conv keys [symmetric])
  with assms(2) have "n \<in> fst ` set (rev ?kvs)" by (simp only:)
  then have "map_of (rev ?kvs) n \<noteq> None" by (simp only: map_of_eq_None_iff not_not)
  then obtain hp where hp: "map_of (rev ?kvs) n = Some hp" by blast
  then have "(n, hp) \<in> set ?kvs" by (metis map_of_SomeD set_rev)
  then obtain v where "(v, hp) \<in> set (zip vs (map fst runs))" "vol_Name v = n" by auto
  then obtain i where i: "i < length vs" "v = vs ! i" "hp = fst (runs ! i)"
    using len by (auto simp: in_set_zip)
  with assms(1) have "P v (hp, snd (runs ! i))" by (simp add: list_all2_conv_all_nth)
  with that [of v hp "snd (runs ! i)"] i get hp \<open>vol_Name v = n\<close> show ?thesis by simp
qed

text \<open>The check of \<open>bind_mounts\<close> never fires: it was decided when the disks were mounted.\<close>

lemma prepared_writable:
  assumes prep: "volumes_prepared env wants (Volumes spec) m evs"
    and sub: "vm_Name ` set (mounts_of spec) \<subseteq> volume_names spec"
    and wants: "\<forall>n. map_get wants n = (if n \<in> volume_names spec then Some (wants_rw (mounts_of spec) n) else None)"
  shows "writable_where_wanted m (mounts_of spec)"
  unfolding writable_where_wanted_def
proof
  fix vm
  assume vm: "vm \<in> set (mounts_of spec)"
  with sub have n: "vm_Name vm \<in> vol_Name ` set (Volumes spec)" by (auto simp: volume_names_def)
  from prep obtain runs disks where
    runs: "list_all2 (\<lambda>v (hp, t). \<exists>w. map_get wants (vol_Name v) = Some w \<and> volume_run env w disks v hp t) (Volumes spec) runs"
    and m: "m = foldl (\<lambda>m (v, hp). map_put (vol_Name v) hp m) map_make (zip (Volumes spec) (map fst runs))"
    by (auto simp: volumes_prepared_def)
  obtain v hp t where v: "vol_Name v = vm_Name vm"
    "\<exists>w. map_get wants (vol_Name v) = Some w \<and> volume_run env w disks v hp t" "map_get m (vm_Name vm) = Some hp"
    by (rule fill_volumes [OF runs n]) (simp add: m)
  then obtain w where w: "map_get wants (vm_Name vm) = Some w" "volume_run env w disks v hp t" by auto
  have "vm_ReadOnly vm" if "hp_readOnly hp"
  proof (rule ccontr)
    assume "\<not> vm_ReadOnly vm"
    with vm have "wants_rw (mounts_of spec) (vm_Name vm)" by (auto simp: wants_rw_def list_ex_iff)
    moreover have "\<not> w" by (rule volume_run_mode [OF w(2) that])
    ultimately show False using w(1) wants by (auto split: if_splits)
  qed
  with v(3) show "\<exists>hp. map_get m (vm_Name vm) = Some hp \<and> (hp_readOnly hp \<longrightarrow> vm_ReadOnly vm)" by blast
qed

section \<open>The whole preparation\<close>

definition consistent :: "ContainerSpecStruct \<Rightarrow> bool" where
  "consistent spec \<longleftrightarrow> vm_Name ` set (mounts_of spec) = volume_names spec"

definition bindings_of :: "VolumeHostPathAndMode go_map \<Rightarrow> ContainerSpecStruct \<Rightarrow> HostPathBindConfiguration list go_map" where
  "bindings_of m spec = foldl (\<lambda>b ct. map_put (ct_Name ct) (map (binding m) (ct_VolumeMounts ct)) b) map_make (Containers spec)"

text \<open>
  A preparation that succeeded: every volume was prepared, with write access wanted exactly where some
  mount wants it, and every mount is bound to the host path of its volume, which is writable if the
  mount is.
\<close>

definition preparation :: "'w Env \<Rightarrow> ContainerSpecStruct \<Rightarrow> HostPathBindConfiguration list go_map \<Rightarrow> call list \<Rightarrow> bool" where
  "preparation env spec b evs \<longleftrightarrow>
     (\<exists>wants m. (\<forall>n. map_get wants n = (if n \<in> volume_names spec then Some (wants_rw (mounts_of spec) n) else None))
       \<and> volumes_prepared env wants (Volumes spec) m evs
       \<and> writable_where_wanted m (mounts_of spec)
       \<and> b = bindings_of m spec)"

lemma unreferenced_iff:
  assumes "valid_order ord" and "counted (volume_names spec) (mounts_of spec) (c, w)"
  shows "find (\<lambda>(n, k). k = 0) (map_range ord c) = None \<longleftrightarrow> volume_names spec \<subseteq> vm_Name ` set (mounts_of spec)"
proof -
  have "find (\<lambda>(n, k). k = 0) (map_range ord c) = None \<longleftrightarrow> (\<forall>n k. map_get c n = Some k \<longrightarrow> k \<noteq> 0)"
    by (auto simp: find_None_iff set_map_range [OF assms(1)])
  also have "\<dots> \<longleftrightarrow> (\<forall>n \<in> volume_names spec. references (mounts_of spec) n \<noteq> 0)"
    using assms(2) by (auto simp: counted_def)
  also have "\<dots> \<longleftrightarrow> volume_names spec \<subseteq> vm_Name ` set (mounts_of spec)"
    by (auto simp: references_def filter_empty_conv)
  finally show ?thesis .
qed

lemma emits_countReferences:
  "emits calls (countReferences spec) (\<lambda>evs r. evs = [] \<and> (case r of
        Ok m \<Rightarrow> vm_Name ` set (mounts_of spec) \<subseteq> volume_names spec \<and> counted (volume_names spec) (mounts_of spec) m
      | Err _ \<Rightarrow> \<not> vm_Name ` set (mounts_of spec) \<subseteq> volume_names spec | Panic _ \<Rightarrow> False))"
proof (rule emitsI)
  fix s :: "'w st"
  obtain r s' where run: "countReferences spec s = (r, s')" by (cases "countReferences spec s")
  note outcome = countReferences_correct [OF run]
  have "calls (snd (countReferences spec s)) = calls s @ []"
    using silentD [OF silent_countReferences run] run by simp
  then show "\<exists>evs. calls (snd (countReferences spec s)) = calls s @ evs \<and> evs = [] \<and>
     (case fst (countReferences spec s) of
        Ok m \<Rightarrow> vm_Name ` set (mounts_of spec) \<subseteq> volume_names spec \<and> counted (volume_names spec) (mounts_of spec) m
      | Err _ \<Rightarrow> \<not> vm_Name ` set (mounts_of spec) \<subseteq> volume_names spec | Panic _ \<Rightarrow> False)"
    unfolding run fst_conv snd_conv using outcome by blast
qed

context volumes_env
begin

lemma emits_Prepare:
  assumes "valid_order (env_Order env)"
  shows "emits calls (PrepareVolumesAndGetBindings env spec)
    (\<lambda>evs r. (\<forall>b. r = Ok b \<longrightarrow> consistent spec \<and> preparation env spec b evs)
           \<and> (\<not> consistent spec \<longrightarrow> evs = [] \<and> (\<exists>e. r = Err e)))"
  (is "emits calls _ ?S")
  unfolding PrepareVolumesAndGetBindings_def bindE_def
proof (rule emits_handle [OF emits_countReferences])
  fix cw :: reference_maps and evs0 :: "call list"
  assume "evs0 = [] \<and> (case Ok cw of Ok m \<Rightarrow> vm_Name ` set (mounts_of spec) \<subseteq> volume_names spec
      \<and> counted (volume_names spec) (mounts_of spec) m
      | Err _ \<Rightarrow> \<not> vm_Name ` set (mounts_of spec) \<subseteq> volume_names spec | Panic _ \<Rightarrow> False)"
  moreover obtain c w where cw: "cw = (c, w)" by (cases cw)
  ultimately have e0: "evs0 = []" and sub: "vm_Name ` set (mounts_of spec) \<subseteq> volume_names spec"
    and counted: "counted (volume_names spec) (mounts_of spec) (c, w)" by auto
  note unref = unreferenced_iff [OF assms counted]
  show "emits calls (case cw of (counts, wants) \<Rightarrow>
       case find (\<lambda>(n, k). k = 0) (map_range (env_Order env) counts) of
         Some (volumeName, _) \<Rightarrow>
           throwE (ErrorString (''Invalid container declaration: Volume '' @ volumeName @ '' not referenced by any container.''))
       | None \<Rightarrow>
           handleE (buildVolumeNameToHostPathMap env (Volumes spec) wants) throwE
             (\<lambda>m. lift_result (bind_containers m (Containers spec) map_make)))
     (\<lambda>evs. ?S (evs0 @ evs))"
  proof (cases "find (\<lambda>(n, k). k = 0) (map_range (env_Order env) c)")
    case (Some u)
    with unref have "\<not> consistent spec" by (auto simp: consistent_def)
    with Some e0 cw show ?thesis by (cases u) (auto intro!: emits_throw)
  next
    case None
    with unref sub have cons: "consistent spec" by (auto simp: consistent_def)
    have wants: "\<forall>n. map_get w n = (if n \<in> volume_names spec then Some (wants_rw (mounts_of spec) n) else None)"
      using counted by (simp add: counted_def)
    have "emits calls (handleE (buildVolumeNameToHostPathMap env (Volumes spec) w) throwE
             (\<lambda>m. lift_result (bind_containers m (Containers spec) map_make))) ?S"
    proof (rule emits_handle [OF emits_buildVolumeNameToHostPathMap], goal_cases)
      case (1 m evs1)
      then have prep: "volumes_prepared env w (Volumes spec) m evs1" by simp
      note ok = prepared_writable [OF prep sub wants]
      have "bind_containers m (Containers spec) map_make = Inr (bindings_of m spec)"
        using bind_containers_ok [OF ok [unfolded mounts_of_def]] by (simp add: bindings_of_def)
      moreover have "preparation env spec (bindings_of m spec) evs1"
        unfolding preparation_def using wants prep ok by blast
      ultimately show ?case using cons by (auto intro!: emits_return)
    qed (use cons in \<open>auto intro!: emits_throw\<close>)
    with None e0 cw show ?thesis by simp
  qed
qed (auto simp: consistent_def intro!: emits_throw)

end

context trace_policy
begin

lemma keeps_source:
  assumes "\<And>x. given = Some x \<Longrightarrow> keeps obs ok (process x)"
  shows "keeps obs ok (source given process vars)"
  using assms
  unfolding source_def attempt_def by (auto intro!: keeps_rules split: option.split)

end

context volume_policy
begin

lemma keeps_processVolume: "keeps calls ok (processVolume env wants disks v)"
  unfolding processVolume_def
  by (auto intro!: keeps_rules keeps_source keeps_volumes split: option.split)

lemma keeps_Prepare: "keeps calls ok (PrepareVolumesAndGetBindings env spec)"
  unfolding PrepareVolumesAndGetBindings_def buildVolumeNameToHostPathMap_def countReferences_def
  by (auto intro!: keeps_rules keeps_leaves keeps_volumes keeps_processVolume split: option.split)

end

context reliable_env
begin

lemma returns_source [returns_intros]: "(\<And>x. returns (process x)) \<Longrightarrow> returns (source v process vars)"
  unfolding source_def attempt_def by (auto intro!: returns_intros split: option.split)

lemma returns_processVolume [returns_intros]: "returns (processVolume env wants disks v)"
  unfolding processVolume_def by (auto intro!: returns_intros split: option.split)

lemma returns_Prepare [returns_intros]: "returns (PrepareVolumesAndGetBindings env spec)"
  unfolding PrepareVolumesAndGetBindings_def buildVolumeNameToHostPathMap_def countReferences_def
  by (auto intro!: returns_intros split: option.split)

end

section \<open>Properties\<close>

definition pd_volume :: "string \<Rightarrow> int \<Rightarrow> GcePersistentDiskVolume" where
  "pd_volume pd part = \<lparr>PdName = pd, FsType = ''ext4'', Partition = part\<rparr>"

definition example_container :: Container where
  "example_container = \<lparr>ct_Name = ''c'', ct_Image = ''i'', ct_Command = None, ct_Args = None,
     ct_VolumeMounts = [\<lparr>vm_Name = ''data'', vm_MountPath = ''/data'', vm_ReadOnly = False\<rparr>,
       \<lparr>vm_Name = ''tmp'', vm_MountPath = ''/tmp'', vm_ReadOnly = True\<rparr>],
     ct_Env = [], ct_SecurityContext = \<lparr>Privileged = False\<rparr>, ct_StdIn = False, ct_Tty = False\<rparr>"

definition example_spec :: ContainerSpecStruct where
  "example_spec = \<lparr>Containers = [example_container], Volumes =
     [\<lparr>vol_Name = ''data'', vol_EmptyDir = None, vol_HostPath = None, vol_GcePersistentDisk = Some (pd_volume ''pd'' 0)\<rparr>,
      \<lparr>vol_Name = ''tmp'', vol_EmptyDir = Some \<lparr>Medium = ''Memory''\<rparr>, vol_HostPath = None, vol_GcePersistentDisk = None\<rparr>],
     spec_RestartPolicy = None\<rparr>"

abbreviation idle_env :: "unit Env" where
  "idle_env \<equiv> production_env default_volume_flags idle_sys (Unmarshal_disks idle_errors) (\<lambda>ks. ks)"

lemma device_modes: "ModeDevice \<noteq> (0 :: 32 word)" "ModeDevice AND ModeCharDevice = (0 :: 32 word)"
  by (simp_all add: ModeDevice_def ModeCharDevice_def)

lemmas run_defs = handleE_def bindE_def seqE_def Let_def run_cmd_def map_get_def map_put_def map_make_def

lemmas volume_defs = processVolume_def source_def attempt_def processHostPathVolume_def
  processEmptyDirVolume_def processMemoryBackedEmptyDirVolume_def processGcePersistentDiskVolume_def
  resolveGcePersistentDiskDevicePath_def checkDeviceReadable_def checkDeviceNotMounted_def
  getSinglePropertyFromDeviceWithLsblk_def checkFilesystemAndFormatIfNeeded_def createNewMountPath_def
  mountDevice_def Count_newlines_def ext4FsType_def device_modes wrapToEnterHostMountNamespace_def default_hostProcPath_def default_volume_flags_def

text \<open>On the machine where everything succeeds a listed disk is mounted.\<close>

lemma idle_pd:
  assumes "pd \<noteq> []"
  shows "\<exists>s'. processGcePersistentDiskVolume (production_env default_volume_flags idle_sys parse ord) (pd_volume pd part) w [(pd, False)] s =
     (Ok \<lparr>hp_hostPath = new_mount_path (production_env default_volume_flags idle_sys parse ord) ''gce-persistent-disk'' pd, hp_readOnly = \<not> w\<rparr>, s')"
  using assms by (simp add: volume_defs run_defs pd_volume_def idle_run new_mount_path_def)

lemma idle_tmpfs:
  "\<exists>s'. processEmptyDirVolume (production_env default_volume_flags idle_sys parse ord) \<lparr>Medium = ''Memory''\<rparr> name s =
     (Ok \<lparr>hp_hostPath = new_mount_path (production_env default_volume_flags idle_sys parse ord) ''tmpfs'' name, hp_readOnly = False\<rparr>, s')"
  by (simp add: volume_defs run_defs idle_run new_mount_path_def)

definition example_binds :: "HostPathBindConfiguration list" where
  "example_binds = [\<lparr>bc_HostPath = new_mount_path idle_env ''gce-persistent-disk'' ''pd'', bc_ContainerPath = ''/data'', bc_ReadOnly = False\<rparr>,
     \<lparr>bc_HostPath = new_mount_path idle_env ''tmpfs'' ''tmp'', bc_ContainerPath = ''/tmp'', bc_ReadOnly = True\<rparr>]"

lemma idle_example: "succeeds (PrepareVolumesAndGetBindings idle_env example_spec) [(''c'', example_binds)]"
  by (rule succeedsI) (simp add: PrepareVolumesAndGetBindings_def countReferences_def example_spec_def example_container_def run_defs idle_run
      example_binds_def new_mount_path_def
      init_references_def lift_result_def map_range_def map_keys_def buildVolumeNameToHostPathMap_def buildDiskMetadataReadOnlyMap_def
      idle_disks volume_defs pd_volume_def)


text \<open>C10. Preparing the volumes of a declaration on any machine. If it succeeds, volumes and volume
  mounts refer to each other, every volume was prepared in order by the run of its kind, with write
  access wanted exactly where some mount asks for it, and each mount is bound to the host path of its
  volume, a mount that writes never to a read-only one. If a mount names no volume, or a volume has no
  mount, it fails without a single call.\<close>

theorem Prepare_trace:
  assumes "valid_order ord"
  shows "emits calls (PrepareVolumesAndGetBindings (production_env vflags sys parse ord) spec)
    (\<lambda>evs r. (case r of Ok b \<Rightarrow> consistent spec \<and> preparation (production_env vflags sys parse ord) spec b evs | _ \<Rightarrow> True)
           \<and> (consistent spec \<or> evs = [] \<and> (\<exists>e. r = Err e)))"
proof -
  have "valid_order (env_Order (production_env vflags sys parse ord))" using assms by simp
  then show ?thesis
    by (rule emits_weaken [OF production.emits_Prepare]) (auto split: outcome.split)
qed

theorem Prepare_trace_witness:
  "\<exists>b s'. PrepareVolumesAndGetBindings idle_env example_spec idle_state = (Ok b, s')
     \<and> consistent example_spec \<and> preparation idle_env example_spec b (calls s')"
proof -
  obtain b s' where run: "PrepareVolumesAndGetBindings idle_env example_spec idle_state = (Ok b, s')"
    using succeeds_idle [OF idle_example] by blast
  from emitsE [OF Prepare_trace [OF valid_order_id] run]
  have "consistent example_spec \<and> preparation idle_env example_spec b (calls s')"
    by (auto simp: idle_state_def)
  with run show ?thesis by blast
qed


definition two_definitions :: Volume where
  "two_definitions = \<lparr>vol_Name = ''v'', vol_EmptyDir = Some \<lparr>Medium = ''Memory''\<rparr>, vol_HostPath = Some \<lparr>Path = ''/''\<rparr>,
     vol_GcePersistentDisk = None\<rparr>"


text \<open>C34. The mount point of a persistent disk does not depend on the partition: volumes that name
  different partitions of one disk are mounted on the same directory, and their mounts are bound to it.\<close>

theorem partitions_share_mount_point:
  assumes "processGcePersistentDiskVolume (production_env vflags sys parse ord) v1 w1 disks1 s1 = (Ok hp1, s1')"
    and "processGcePersistentDiskVolume (production_env vflags sys parse ord) v2 w2 disks2 s2 = (Ok hp2, s2')"
    and "PdName v1 = PdName v2"
  shows "hp_hostPath hp1 = hp_hostPath hp2"
proof -
  have path: "hp_hostPath hp = new_mount_path (production_env vflags sys parse ord) ''gce-persistent-disk'' (PdName v)"
    if run: "processGcePersistentDiskVolume (production_env vflags sys parse ord) v w disks s = (Ok hp, s')" for v w disks s hp s'
  proof (rule emitsE [OF production.emits_processGcePersistentDiskVolume run])
    fix evs
    assume "good_or_bad (\<lambda>hp evs. FsType v \<in> {[], ext4FsType} \<and> PdName v \<noteq> [] \<and>
          (\<exists>ro. map_get disks (PdName v) = Some ro \<and> \<not> (ro \<and> w) \<and> pd_mounted (production_env vflags sys parse ord) v w ro hp evs))
        (\<lambda>evs. mounts_nothing (production_env vflags sys parse ord) evs \<and> (map_get disks (PdName v) = Some True \<longrightarrow> fs_untouched evs)) evs (Ok hp)"
    then obtain ro where "pd_mounted (production_env vflags sys parse ord) v w ro hp evs" unfolding good_or_bad_simps by blast
    then show ?thesis unfolding pd_mounted_def Let_def by (elim exE conjE) (simp add: pd_mount_def)
  qed
  from path [OF assms(1)] path [OF assms(2)] assms(3) show ?thesis by simp
qed

theorem partitions_share_mount_point_witness:
  "\<exists>hp1 hp2 s1 s2. processGcePersistentDiskVolume idle_env (pd_volume ''d'' 1) True [(''d'', False)] idle_state = (Ok hp1, s1)
     \<and> processGcePersistentDiskVolume idle_env (pd_volume ''d'' 2) True [(''d'', False)] s1 = (Ok hp2, s2)
     \<and> pd_device (pd_volume ''d'' 1) \<noteq> pd_device (pd_volume ''d'' 2) \<and> hp_hostPath hp1 = hp_hostPath hp2"
proof -
  obtain hp1 s1 where r1: "processGcePersistentDiskVolume idle_env (pd_volume ''d'' 1) True [(''d'', False)] idle_state = (Ok hp1, s1)"
    using idle_pd [of "''d''"] by blast
  obtain hp2 s2 where r2: "processGcePersistentDiskVolume idle_env (pd_volume ''d'' 2) True [(''d'', False)] s1 = (Ok hp2, s2)"
    using idle_pd [of "''d''"] by blast
  have "hp_hostPath hp1 = hp_hostPath hp2"
    by (rule partitions_share_mount_point [OF r1 r2]) (simp add: pd_volume_def)
  moreover have "pd_device (pd_volume ''d'' 1) \<noteq> pd_device (pd_volume ''d'' 2)"
    by (simp add: pd_device_def pd_volume_def fmt_d_digit)
  ultimately show ?thesis using r1 r2 by blast
qed

end
