(* ===== verification/Docker_Auth.thy ===== *)
theory Docker_Auth
  imports Json
begin

text \<open>
  The credentials handed to the Docker engine: \<open>base64EncodeAuth\<close> of
  \<open>runtime/runtime.go\<close>, with what it uses of Go's \<open>encoding/base64\<close> (the URL alphabet,
  with padding). The daemon decodes the header value and unmarshals it: that gives the user name and
  the token.
\<close>

section \<open>base64\<close>

definition url_alphabet :: string where
  "url_alphabet = ''ABCDEFGHIJKLMNOPQRSTUVWXYZabcdefghijklmnopqrstuvwxyz0123456789-_''"

text \<open>The sextet at position \<open>k\<close> from the right of a 24-bit value.\<close>

definition sextet :: "nat \<Rightarrow> nat \<Rightarrow> char" where
  "sextet val k = url_alphabet ! (val div 64 ^ k mod 64)"

fun EncodeToString :: "string \<Rightarrow> string" where
  "EncodeToString [] = []"
| "EncodeToString [a] =
     (let val = of_char a * 65536 in [sextet val 3, sextet val 2, CHR ''='', CHR ''=''])"
| "EncodeToString [a, b] =
     (let val = of_char a * 65536 + of_char b * 256 in [sextet val 3, sextet val 2, sextet val 1, CHR ''=''])"
| "EncodeToString (a # b # c # rest) =
     (let val = of_char a * 65536 + of_char b * 256 + of_char c
      in sextet val 3 # sextet val 2 # sextet val 1 # sextet val 0 # EncodeToString rest)"

definition sextet_value :: "char \<Rightarrow> nat option" where
  "sextet_value c = position c url_alphabet"

fun DecodeString :: "string \<Rightarrow> string option" where
  "DecodeString [] = Some []"
| "DecodeString (w # x # y # z # rest) =
     (if z = CHR ''='' \<and> rest = [] then
        (if y = CHR ''='' then
           (case (sextet_value w, sextet_value x) of
              (Some i, Some j) \<Rightarrow> Some [char_of (i * 4 + j div 16)]
            | _ \<Rightarrow> None)
         else
           (case (sextet_value w, sextet_value x, sextet_value y) of
              (Some i, Some j, Some k) \<Rightarrow> Some [char_of (i * 4 + j div 16), char_of (j mod 16 * 16 + k div 4)]
            | _ \<Rightarrow> None))
      else
        (case (sextet_value w, sextet_value x, sextet_value y, sextet_value z) of
           (Some i, Some j, Some k, Some l) \<Rightarrow>
             map_option (\<lambda>bs. char_of (i * 4 + j div 16) # char_of (j mod 16 * 16 + k div 4) # char_of (k mod 4 * 64 + l) # bs)
               (DecodeString rest)
         | _ \<Rightarrow> None))"
| "DecodeString _ = None"

lemma distinct_alphabet: "distinct url_alphabet" and length_alphabet: "length url_alphabet = 64"
  and pad_not_in_alphabet: "CHR ''='' \<notin> set url_alphabet"
  unfolding url_alphabet_def by simp_all

lemma sextet_value_sextet [simp]: "sextet_value (sextet val k) = Some (val div 64 ^ k mod 64)"
  unfolding sextet_value_def sextet_def
  by (rule position_nth) (simp_all add: distinct_alphabet length_alphabet)

lemma sextet_in: "sextet val k \<in> set url_alphabet"
  unfolding sextet_def by (rule nth_mem) (simp add: length_alphabet)

lemma sextet_not_pad [simp]: "sextet val k \<noteq> CHR ''=''"
  using sextet_in pad_not_in_alphabet by metis

text \<open>The four sextets of three bytes, and the bytes of the sextets.\<close>

lemma sextets:
  fixes a b c :: nat
  assumes "a < 256" "b < 256" "c < 256" and v: "v = a * 65536 + b * 256 + c"
  shows "v div 64 ^ 3 mod 64 = a div 4" "v div 64 ^ 2 mod 64 = a mod 4 * 16 + b div 16"
    "v div 64 ^ 1 mod 64 = b mod 16 * 4 + c div 64" "v div 64 ^ 0 mod 64 = c mod 64"
proof -
  have d16: "v div 65536 = a" using assms by simp
  have d8: "v div 256 = a * 256 + b" using assms by simp
  have "v div 64 ^ 3 = v div 65536 div 4" by (simp add: div_mult2_eq [symmetric])
  then show "v div 64 ^ 3 mod 64 = a div 4" using d16 assms(1) by simp
  have six: "(x * 16 + q) mod 64 = x mod 4 * 16 + q" if "q < 16" for x q :: nat
    using mod_mult2_eq [of "x * 16 + q" 16 4] that by simp
  have four: "(x * 4 + q) mod 64 = x mod 16 * 4 + q" if "q < 4" for x q :: nat
    using mod_mult2_eq [of "x * 4 + q" 4 16] that by simp
  have "v div 64 ^ 2 = v div 256 div 16" by (simp add: div_mult2_eq [symmetric])
  then have "v div 64 ^ 2 = a * 16 + b div 16" using d8 by simp
  then show "v div 64 ^ 2 mod 64 = a mod 4 * 16 + b div 16" using six [of "b div 16" a] assms(2) by simp
  have "v div 64 ^ 1 = (a * 256 + b) * 4 + c div 64" unfolding v by simp
  moreover have "(a * 256 + b) mod 16 = b mod 16" using mod_mult_self3 [of "a * 16" 16 b] by (simp add: mult.commute)
  ultimately show "v div 64 ^ 1 mod 64 = b mod 16 * 4 + c div 64"
    using four [of "c div 64" "a * 256 + b"] assms(3) by simp
  have low: "v = (a * 1024 + b * 4) * 64 + c" unfolding v by simp
  show "v div 64 ^ 0 mod 64 = c mod 64"
    unfolding power_0 div_by_1 low by (rule mod_mult_self3)
qed

lemma bytes_of_sextets:
  fixes a b c :: nat
  assumes "b < 256" "c < 256"
  shows "a div 4 * 4 + (a mod 4 * 16 + b div 16) div 16 = a"
    "(a mod 4 * 16 + b div 16) mod 16 * 16 + (b mod 16 * 4 + c div 64) div 4 = b"
    "(b mod 16 * 4 + c div 64) mod 4 * 64 + c mod 64 = c"
proof -
  have "(a mod 4 * 16 + b div 16) div 16 = a mod 4" and b: "(a mod 4 * 16 + b div 16) mod 16 = b div 16"
    using assms(1) by simp_all
  then show "a div 4 * 4 + (a mod 4 * 16 + b div 16) div 16 = a" by simp
  have "(b mod 16 * 4 + c div 64) div 4 = b mod 16" and c: "(b mod 16 * 4 + c div 64) mod 4 = c div 64"
    using assms(2) by simp_all
  with b show "(a mod 4 * 16 + b div 16) mod 16 * 16 + (b mod 16 * 4 + c div 64) div 4 = b" by simp
  from c show "(b mod 16 * 4 + c div 64) mod 4 * 64 + c mod 64 = c" by simp
qed

lemma sextet_values:
  fixes a b c :: nat
  assumes "a < 256" "b < 256" "c < 256" and "v = a * 65536 + b * 256 + c"
  shows "sextet_value (sextet v 3) = Some (a div 4)" "sextet_value (sextet v 2) = Some (a mod 4 * 16 + b div 16)"
    "sextet_value (sextet v 1) = Some (b mod 16 * 4 + c div 64)" "sextet_value (sextet v 0) = Some (c mod 64)"
  by (simp_all only: sextet_value_sextet sextets [OF assms])

lemmas decode_rules = EncodeToString.simps DecodeString.simps Let_def sextet_not_pad option.case prod.case
  simp_thms if_True if_False option.map char_of_char

lemma DecodeString_EncodeToString: "DecodeString (EncodeToString s) = Some s"
proof (induction s rule: EncodeToString.induct)
  case (2 a)
  have v: "of_char a * 65536 = of_char a * 65536 + 0 * 256 + (0 :: nat)" by simp
  have z: "(0 :: nat) < 256" by simp
  from sextet_values [OF of_char_256 z z v] bytes_of_sextets(1) [OF z z, of "of_char a"]
  show ?case by (simp only: decode_rules)
next
  case (3 a b)
  have v: "of_char a * 65536 + of_char b * 256 = of_char a * 65536 + of_char b * 256 + (0 :: nat)" by simp
  have z: "(0 :: nat) < 256" by simp
  from sextet_values [OF of_char_256 of_char_256 z v] bytes_of_sextets(1,2) [of "of_char b" 0 "of_char a", OF of_char_256 z]
  show ?case by (simp only: decode_rules)
next
  case (4 a b c rest)
  from sextet_values [OF of_char_256 of_char_256 of_char_256 refl, of a b c]
    bytes_of_sextets(1,2) [of "of_char b" "of_char c" "of_char a", OF of_char_256 of_char_256]
    bytes_of_sextets(3) [of "of_char b" "of_char c", OF of_char_256 of_char_256] 4
  show ?case by (simp only: decode_rules)
qed simp

lemma EncodeToString_alphabet: "set (EncodeToString s) \<subseteq> insert (CHR ''='') (set url_alphabet)"
  by (induction s rule: EncodeToString.induct) (auto simp: Let_def sextet_in)

lemma EncodeToString_length: "length (EncodeToString s) = (length s + 2) div 3 * 4"
proof (induction s rule: EncodeToString.induct)
  case (4 a b c rest)
  have "(length (a # b # c # rest) + 2) div 3 = (length rest + 2) div 3 + 1" by simp
  with 4 show ?case by (simp add: Let_def)
qed (simp_all add: Let_def)

section \<open>JSON\<close>

text \<open>
  The two fields of \<open>AuthConfig\<close> the program sets; all its fields are left out of the JSON
  when they are empty.
\<close>

record AuthConfig =
  Username :: string
  Password :: string

definition auth_fields :: "AuthConfig \<Rightarrow> (string \<times> string) list" where
  "auth_fields auth = filter (\<lambda>(k, v). v \<noteq> []) [(''username'', Username auth), (''password'', Password auth)]"

definition json_object :: "(string \<times> string) list \<Rightarrow> string" where
  "json_object ms = ''{'' @ Join (map (\<lambda>(k, v). json_string k @ '':'' @ json_string v) ms) '','' @ ''}''"

lemma json_object_render: "json_object ms = render [] (JObject (map (apsnd JString) ms))"
  by (simp add: json_object_def split_def comp_def)

definition base64EncodeAuth :: "AuthConfig \<Rightarrow> string" where
  "base64EncodeAuth auth = EncodeToString (json_object (auth_fields auth) @ [newline])"

text \<open>What the daemon makes of the header value.\<close>

definition read_auth :: "string \<Rightarrow> json option" where
  "read_auth header = (case DecodeString header of Some text \<Rightarrow> parse_json text | None \<Rightarrow> None)"

section \<open>Properties\<close>

text \<open>The credentials \<open>pullImage\<close> builds from the token it is given.\<close>

definition authStruct :: "string \<Rightarrow> AuthConfig" where
  "authStruct auth = (if auth \<noteq> [] then \<lparr>Username = ''_token'', Password = auth\<rparr> else \<lparr>Username = [], Password = []\<rparr>)"

text \<open>C15. The credentials survive their encoding: decoding the header value as URL-safe base64 and
  parsing the JSON in it gives an object with the user name \<open>_token\<close> and the token, with quotes,
  control characters, HTML characters and every rune in place, and an empty object for the empty token.
  Only bytes that are not UTF-8 do not survive: they are replaced.\<close>

theorem registry_auth_roundtrip:
  "read_auth (base64EncodeAuth (authStruct token)) =
    Some (JObject (if token = [] then [] else [(''username'', JString ''_token''), (''password'', JString (scrub token))]))
   \<and> (if valid_utf8 token then scrub token = token else True)"
proof (intro conjI)
  let ?v = "JObject (map (apsnd JString) (auth_fields (authStruct token)))"
  have "writable maxNestingDepth ?v" by (auto simp: maxNestingDepth_def)
  from parse_json_written [of "[]", OF _ this, of "[newline]"]
  have "read_auth (base64EncodeAuth (authStruct token)) = Some (scrub_json ?v)"
    by (simp only: read_auth_def base64EncodeAuth_def DecodeString_EncodeToString option.case json_object_render) (simp add: json_space_def)
  also have "scrub_json ?v = JObject (if token = [] then [] else [(''username'', JString ''_token''), (''password'', JString (scrub token))])"
    by (simp add: auth_fields_def authStruct_def scrub_valid valid_utf8_ascii is_ascii_def)
  finally show "read_auth (base64EncodeAuth (authStruct token)) =
      Some (JObject (if token = [] then [] else [(''username'', JString ''_token''), (''password'', JString (scrub token))]))" .
qed (simp add: scrub_valid)


end
