(* ===== verification/Containers.thy ===== *)
theory Containers
  imports Docker_Auth Effects Go_Maps
begin

text \<open>
  The first half of \<open>runtime/runtime.go\<close>: pulling the image and removing the containers of
  earlier runs, through the Docker client.
\<close>

section \<open>Calls of the Docker engine\<close>

definition call_ImagePull :: "'w DockerApiClient \<Rightarrow> string \<Rightarrow> string \<Rightarrow> ('w st, nat) go" where
  "call_ImagePull client ref registryAuth = observe (CImagePull ref registryAuth) (external of_sum (ImagePull client ref registryAuth))"

definition call_ReadBody :: "'w DockerApiClient \<Rightarrow> nat \<Rightarrow> ('w st, string) go" where
  "call_ReadBody client resp = observe (CReadBody resp) (external of_sum (Body_ReadAll client resp))"

definition call_CloseBody :: "'w DockerApiClient \<Rightarrow> nat \<Rightarrow> ('w st, unit) go" where
  "call_CloseBody client resp = observe (\<lambda>_. CCloseBody resp) (external Ok (\<lambda>w. ((), Body_Close client resp w)))"

definition call_ContainerList :: "'w DockerApiClient \<Rightarrow> bool \<Rightarrow> ('w st, DockerContainer list) go" where
  "call_ContainerList client listAll = observe (CContainerList listAll) (external of_sum (ContainerList client listAll))"

definition call_ContainerRemove :: "'w DockerApiClient \<Rightarrow> string \<Rightarrow> bool \<Rightarrow> ('w st, unit) go" where
  "call_ContainerRemove client containerID force =
     observe (CContainerRemove containerID force) (external of_err (ContainerRemove client containerID force))"

lemma emits_docker:
  "emits calls (call_ImagePull client ref a) (\<lambda>evs r. evs = [CImagePull ref a r] \<and> (\<forall>p. r \<noteq> Panic p))"
  "emits calls (call_ReadBody client b) (\<lambda>evs r. evs = [CReadBody b r] \<and> (\<forall>p. r \<noteq> Panic p))"
  "emits calls (call_CloseBody client b) (\<lambda>evs r. evs = [CCloseBody b] \<and> r = Ok ())"
  "emits calls (call_ContainerList client q) (\<lambda>evs r. evs = [CContainerList q r] \<and> (\<forall>p. r \<noteq> Panic p))"
  "emits calls (call_ContainerRemove client i q) (\<lambda>evs r. evs = [CContainerRemove i q r] \<and> (\<forall>p. r \<noteq> Panic p))"
  by (rule emitsI; simp add: call_ImagePull_def call_ReadBody_def call_CloseBody_def call_ContainerList_def
      call_ContainerRemove_def observe_def external_def split: prod.split)+

lemma returns_docker [returns_intros]:
  "returns (call_ImagePull client ref a)" "returns (call_ReadBody client b)" "returns (call_CloseBody client b)"
  "returns (call_ContainerList client q)" "returns (call_ContainerRemove client i q)"
  unfolding call_ImagePull_def call_ReadBody_def call_CloseBody_def call_ContainerList_def call_ContainerRemove_def
  by (intro returns_observe returns_external; simp)+

section \<open>Pulling the image\<close>

text \<open>
  The encoder cannot fail on a struct of strings, so the error branch after
  \<open>base64EncodeAuth\<close> has no counterpart.
\<close>

definition pullImage :: "'w DockerApiClient \<Rightarrow> string \<Rightarrow> Container \<Rightarrow> ('w st, unit) go" where
  "pullImage dockerClient auth spec =
     (let base64Auth = base64EncodeAuth (authStruct auth)
      in seqE (log_Printf (''Pulling image: '' @ [CHR 0x27] @ ct_Image spec @ [CHR 0x27]))
           (bindE (call_ImagePull dockerClient (ct_Image spec) base64Auth) (\<lambda>resp.
              deferE
                (bindE (call_ReadBody dockerClient resp) (\<lambda>body.
                   log_Printf (''Received ImagePull response: ('' @ body @ '').'' @ [newline])))
                (call_CloseBody dockerClient resp))))"

text \<open>
  A pull: the image with the encoded token; the progress stream is read to its end, which is what
  waits for the pull, and closed however that went.
\<close>

definition pull_trace :: "string \<Rightarrow> string \<Rightarrow> call list \<Rightarrow> unit outcome \<Rightarrow> bool" where
  "pull_trace img auth evs r \<longleftrightarrow>
     (let pull = CImagePull img (base64EncodeAuth (authStruct auth)) in
      (\<exists>e. evs = [pull (Err e)] \<and> r = Err e)
    \<or> (\<exists>b x. evs = [pull (Ok b), CReadBody b x, CCloseBody b] \<and> (\<forall>p. x \<noteq> Panic p) \<and> r = conv id (\<lambda>_. ()) x))"

lemma emits_pullImage: "emits calls (pullImage client auth c) (pull_trace (ct_Image c) auth)"
  unfolding pullImage_def Let_def bindE_def [of "call_ImagePull _ _ _"]
proof (rule emits_log, rule emits_handle [OF emits_docker(1)])
  fix b evs0
  assume e0: "evs0 = [CImagePull (ct_Image c) (base64EncodeAuth (authStruct auth)) (Ok b)] \<and> (\<forall>p. Ok b \<noteq> Panic p)"
  show "emits calls (deferE (bindE (call_ReadBody client b) (\<lambda>body. log_Printf (''Received ImagePull response: ('' @ body @ '').'' @ [newline])))
          (call_CloseBody client b)) (\<lambda>evs. pull_trace (ct_Image c) auth (evs0 @ evs))"
  proof (rule emitsI)
    fix s :: "'a st"
    obtain x w where "Body_ReadAll client b (world s) = (x, w)" by fastforce
    then show "\<exists>evs. calls (snd (deferE (bindE (call_ReadBody client b) (\<lambda>body. log_Printf (''Received ImagePull response: ('' @ body @ '').'' @ [newline])))
          (call_CloseBody client b) s)) = calls s @ evs \<and> pull_trace (ct_Image c) auth (evs0 @ evs) (fst (deferE (bindE (call_ReadBody client b)
          (\<lambda>body. log_Printf (''Received ImagePull response: ('' @ body @ '').'' @ [newline]))) (call_CloseBody client b) s))"
      using e0
      by (intro exI [of _ "[CReadBody b (of_sum x), CCloseBody b]"])
        (cases x; simp add: deferE_def bindE_def handleE_def call_ReadBody_def call_CloseBody_def observe_def external_def
          log_Printf_def pull_trace_def Let_def)
  qed
qed (auto intro!: emits_throw simp: pull_trace_def Let_def)

lemma returns_pullImage [returns_intros]: "returns (pullImage client auth c)"
  unfolding pullImage_def Let_def by (intro returns_intros)

section \<open>Removing old containers\<close>

definition containersStartedByKonlet :: "DockerContainer list \<Rightarrow> string \<Rightarrow> string go_map" where
  "containersStartedByKonlet containers rawName =
     (let namePattern1 = ''/klt-''; namePattern2 = ''/'' @ rawName
      in foldl (\<lambda>idsNames container.
           case find (\<lambda>name. HasPrefix name namePattern1 \<or> name = namePattern2) (dc_Names container) of
             Some name \<Rightarrow> map_put (dc_ID container) name idsNames
           | None \<Rightarrow> idsNames) map_make containers)"

definition deleteOldContainers :: "map_order \<Rightarrow> 'w DockerApiClient \<Rightarrow> string \<Rightarrow> ('w st, unit) go" where
  "deleteOldContainers ord dockerClient rawName =
     bindE (call_ContainerList dockerClient True) (\<lambda>containers.
       let idsNames = containersStartedByKonlet containers rawName
       in if idsNames = [] then log_Printf (''No containers created by previous runs of Konlet found.'' @ [newline])
          else foldE (\<lambda>_ (containerID, name).
                 seqE (log_Printf (''Removing a container created by a previous run of Konlet: '' @ [CHR 0x27] @ name
                   @ [CHR 0x27] @ '' (ID: '' @ containerID @ '')'' @ [newline]))
                   (call_ContainerRemove dockerClient containerID True))
               () (map_range ord idsNames))"

text \<open>A container is konlet's if one of its names is.\<close>

definition konlet_name :: "string \<Rightarrow> string \<Rightarrow> bool" where
  "konlet_name rawName name \<longleftrightarrow> HasPrefix name ''/klt-'' \<or> name = ''/'' @ rawName"

definition konlet_ids :: "DockerContainer list \<Rightarrow> string \<Rightarrow> string set" where
  "konlet_ids cs rawName = {dc_ID c | c. c \<in> set cs \<and> list_ex (konlet_name rawName) (dc_Names c)}"

lemma find_konlet: "find (konlet_name raw) ns \<noteq> None \<longleftrightarrow> list_ex (konlet_name raw) ns"
  by (induction ns) auto

lemma containersStartedByKonlet_fold:
  "containersStartedByKonlet cs raw = foldl (\<lambda>m c. case find (konlet_name raw) (dc_Names c) of
     Some name \<Rightarrow> map_put (dc_ID c) name m | None \<Rightarrow> m) map_make cs"
  unfolding containersStartedByKonlet_def konlet_name_def [abs_def] Let_def by simp

lemma konlet_map_keys:
  "set (map_keys (containersStartedByKonlet cs raw)) = konlet_ids cs raw \<and> map_invar (containersStartedByKonlet cs raw)"
  unfolding containersStartedByKonlet_fold
proof (induction cs rule: rev_induct)
  case Nil
  show ?case by (simp add: konlet_ids_def amap.set_keys amap.get_make amap.invar_make)
next
  case (snoc c cs)
  let ?m = "foldl (\<lambda>m c. case find (konlet_name raw) (dc_Names c) of Some name \<Rightarrow> map_put (dc_ID c) name m | None \<Rightarrow> m) map_make cs"
  have ids: "konlet_ids (cs @ [c]) raw = (if list_ex (konlet_name raw) (dc_Names c) then insert (dc_ID c) else (\<lambda>A. A)) (konlet_ids cs raw)"
    by (auto simp: konlet_ids_def)
  show ?case
  proof (cases "find (konlet_name raw) (dc_Names c)")
    case None
    with snoc ids show ?thesis using find_konlet [of raw "dc_Names c"] by simp
  next
    case (Some name)
    have "set (map_keys (map_put (dc_ID c) name ?m)) = insert (dc_ID c) (set (map_keys ?m))"
      by (auto simp: amap.set_keys amap.get_put)
    with Some snoc ids show ?thesis using find_konlet [of raw "dc_Names c"] by (simp add: amap.invar_put)
  qed
qed

text \<open>
  \<open>cleanup_trace raw evs r\<close>: the containers are listed, stopped ones included, and exactly
  konlet's are removed by force, each once, in some order, up to the first failure.
\<close>

definition cleanup_trace :: "string \<Rightarrow> call list \<Rightarrow> unit outcome \<Rightarrow> bool" where
  "cleanup_trace raw evs r \<longleftrightarrow>
     (\<exists>e. evs = [CContainerList True (Err e)] \<and> r = Err e)
   \<or> (\<exists>cs ids evs'. evs = CContainerList True (Ok cs) # evs' \<and> distinct ids \<and> set ids = konlet_ids cs raw
        \<and> script (map (\<lambda>i. CContainerRemove i True) ids) evs' r)"

lemma emits_deleteOldContainers:
  assumes "valid_order ord"
  shows "emits calls (deleteOldContainers ord client raw) (cleanup_trace raw)"
  unfolding deleteOldContainers_def bindE_def
proof (rule emits_handle [OF emits_docker(4)], goal_cases)
  case (1 cs evs0)
  let ?m = "containersStartedByKonlet cs raw"
  let ?ids = "map fst (map_range ord ?m)"
  have ids: "distinct ?ids" "set ?ids = konlet_ids cs raw"
    using konlet_map_keys [of cs raw] distinct_map_range [OF assms, of ?m] valid_order_set [OF assms, of "map_keys ?m"]
    by (simp_all add: map_range_def comp_def)
  have trace: "emits calls m (\<lambda>evs. cleanup_trace raw (evs0 @ evs))"
    if "emits calls m (script (map (\<lambda>i. CContainerRemove i True) ?ids))" for m :: "('a st, unit) go"
    using that
  proof (rule emits_weaken)
    show "cleanup_trace raw (evs0 @ evs) r" if "script (map (\<lambda>i. CContainerRemove i True) ?ids) evs r" for evs r
      unfolding cleanup_trace_def using 1 ids that by (intro disjI2 exI [of _ cs] exI [of _ ?ids] exI [of _ evs] conjI) simp_all
  qed
  have body: "emits calls (seqE (log_Printf msg) (call_ContainerRemove client i True)) (script [CContainerRemove i True])" for msg i
    by (intro emits_log emits_weaken [OF emits_docker(5)]) (auto simp: script_simps elim: outcome.exhaust split: outcome.splits, metis outcome.exhaust old.unit.exhaust)
  show ?case
  proof (cases "?m = []")
    case True
    have "emits calls (log_Printf msg) (script (map (\<lambda>i. CContainerRemove i True) ?ids))" for msg
      using True valid_order_Nil [OF assms]
      by (intro emitsI) (simp add: map_range_def map_keys_def log_Printf_def script_simps)
    from trace [OF this] show ?thesis unfolding Let_def if_P [OF True] .
  next
    case False
    have "emits calls (foldE (\<lambda>_ (containerID, name). seqE (log_Printf (msg containerID name)) (call_ContainerRemove client containerID True)) () (map_range ord ?m))
        (script (map (\<lambda>(containerID, name). CContainerRemove containerID True) (map_range ord ?m)))" for msg
      by (rule script_foldE) (auto intro: body)
    then have "emits calls (foldE (\<lambda>_ (containerID, name). seqE (log_Printf (msg containerID name)) (call_ContainerRemove client containerID True)) () (map_range ord ?m))
        (script (map (\<lambda>i. CContainerRemove i True) ?ids))" for msg
      by (simp add: comp_def split_def)
    from trace [OF this] show ?thesis unfolding Let_def if_not_P [OF False] .
  qed
qed (auto intro!: emits_throw simp: cleanup_trace_def)

lemma returns_deleteOldContainers [returns_intros]: "returns (deleteOldContainers ord client raw)"
  unfolding deleteOldContainers_def Let_def by (auto intro!: returns_intros)

lemma idle_docker_calls [idle_run]:
  "call_ImagePull idle_docker ref a s = (Ok 7, ran [CImagePull ref a (Ok 7)] [] [] s)"
  "call_ReadBody idle_docker b s = (Ok [], ran [CReadBody b (Ok [])] [] [] s)"
  "call_CloseBody idle_docker b s = (Ok (), ran [CCloseBody b] [] [] s)"
  "call_ContainerList idle_docker q s = (let cs = [\<lparr>dc_ID = ''old'', dc_Names = [''/klt-c-abcd'']\<rparr>]
     in (Ok cs, ran [CContainerList q (Ok cs)] [] [] s))"
  "call_ContainerRemove idle_docker i q s = (Ok (), ran [CContainerRemove i q (Ok ())] [] [] s)"
  by (simp_all add: call_ImagePull_def call_ReadBody_def call_CloseBody_def call_ContainerList_def call_ContainerRemove_def
      observe_def external_def idle_docker_def ran_def Let_def)

lemma idle_pull [idle_run]:
  "\<exists>ls. pullImage idle_docker auth c s = (Ok (), ran [CImagePull (ct_Image c) (base64EncodeAuth (authStruct auth)) (Ok 7),
     CReadBody 7 (Ok []), CCloseBody 7] [] ls s)"
  by (simp add: pullImage_def Let_def bindE_def seqE_def handleE_def deferE_def idle_run) blast

lemma idle_cleanup [idle_run]:
  "\<exists>ls. deleteOldContainers (\<lambda>ks. ks) idle_docker raw s = (Ok (), ran [CContainerList True (Ok [\<lparr>dc_ID = ''old'', dc_Names = [''/klt-c-abcd'']\<rparr>]),
     CContainerRemove ''old'' True (Ok ())] [] ls s)"
  by (simp add: deleteOldContainers_def containersStartedByKonlet_def Let_def bindE_def seqE_def handleE_def idle_run
      HasPrefix_def map_range_def map_keys_def map_put_def map_make_def) blast

section \<open>Properties\<close>

text \<open>C12. Removing old containers, on any engine: the containers are listed, stopped ones included, and
  exactly those with a name that starts with \<open>/klt-\<close> or is the legacy name are removed by force,
  each once, in some order, up to the first removal that fails; no other container is touched.\<close>

theorem deleteOldContainers_trace:
  assumes "valid_order ord"
  shows "emits calls (deleteOldContainers ord client raw) (cleanup_trace raw)"
  by (rule emits_deleteOldContainers [OF assms])

theorem deleteOldContainers_trace_witness:
  "\<exists>evs. calls (snd (deleteOldContainers (\<lambda>ks. ks) idle_docker ''c'' idle_state)) = evs \<and> length evs = 2
     \<and> cleanup_trace ''c'' evs (Ok ())"
proof -
  obtain ls where run: "deleteOldContainers (\<lambda>ks. ks) idle_docker ''c'' idle_state = (Ok (),
      ran [CContainerList True (Ok [\<lparr>dc_ID = ''old'', dc_Names = [''/klt-c-abcd'']\<rparr>]), CContainerRemove ''old'' True (Ok ())] [] ls idle_state)"
    using idle_cleanup by blast
  from emitsE [OF deleteOldContainers_trace [OF valid_order_id] run] show ?thesis
    using run by (auto simp: idle_state_def)
qed

text \<open>C24. Pulling an image, on any engine: one pull of the declared image with the encoded
  credentials; if it starts, its progress stream is read to the end and then closed, once, also when
  reading fails; the result is the first error.\<close>

theorem pullImage_trace: "emits calls (pullImage client auth c) (pull_trace (ct_Image c) auth)"
  by (rule emits_pullImage)

end
