(* ===== verification/Randomness.thy ===== *)
theory Randomness
  imports Effects
begin

unbundle bit_operations_syntax

text \<open>
  The random part of container names in \<open>runtime/runtime.go\<close>: the seed, a 64-bit FNV-1a hash
  of host name and boot time, and the suffix drawn with \<open>rand.Rand\<close>. Go's source of random
  numbers is the stream \<open>rng\<close> of 63-bit values in the state; \<open>Intn\<close> rejects values to
  stay unbiased, in a loop that ends only if the stream delivers an acceptable one.
\<close>

section \<open>The seed\<close>

definition offset64 :: "64 word" where "offset64 = 14695981039346656037"
definition prime64 :: "64 word" where "prime64 = 1099511628211"

definition fnv_Write :: "string \<Rightarrow> 64 word \<Rightarrow> 64 word" where
  "fnv_Write data h = foldl (\<lambda>h c. (h XOR of_char c) * prime64) h data"

definition hashHostnameAndBoot :: "string \<Rightarrow> string \<Rightarrow> 64 word" where
  "hashHostnameAndBoot hostname lastBootTime =
     fnv_Write lastBootTime (fnv_Write '' * * * '' (fnv_Write hostname offset64))"

lemma fnv_Write_simps [simp]:
  "fnv_Write [] h = h" "fnv_Write (c # cs) h = fnv_Write cs ((h XOR of_char c) * prime64)"
  by (simp_all add: fnv_Write_def)

lemma fnv_Write_append: "fnv_Write (a @ b) h = fnv_Write b (fnv_Write a h)"
  by (simp add: fnv_Write_def)

lemma prime64_cancel: "x * prime64 = y * prime64 \<longleftrightarrow> x = y"
proof
  assume "x * prime64 = y * prime64"
  then have "x * prime64 * 14886173955864302971 = y * prime64 * 14886173955864302971" by simp
  moreover have "prime64 * 14886173955864302971 = 1" by (simp add: prime64_def)
  ultimately show "x = y" by (simp add: mult.assoc)
qed simp

lemma xor_cancel: "(x XOR a = y XOR a) \<longleftrightarrow> x = y" "(a XOR x = a XOR y) \<longleftrightarrow> x = (y :: 'a :: len word)"
proof -
  show "(x XOR a = y XOR a) \<longleftrightarrow> x = y" by (metis xor.assoc xor_self_eq xor.right_neutral)
  show "(a XOR x = a XOR y) \<longleftrightarrow> x = y" by (metis xor.assoc xor_self_eq xor.left_neutral)
qed

lemma fnv_Write_inj_state: "fnv_Write cs h = fnv_Write cs h' \<longleftrightarrow> h = h'"
  by (induction cs arbitrary: h h') (simp_all add: prime64_cancel xor_cancel)

lemma of_char_word_inj: "(of_char c :: 64 word) = of_char d \<longleftrightarrow> c = d"
proof
  assume "(of_char c :: 64 word) = of_char d"
  then have "unat (of_nat (of_char c) :: 64 word) = unat (of_nat (of_char d) :: 64 word)" by (simp add: of_nat_of_char)
  moreover have "(of_char c :: nat) mod 2 ^ 64 = of_char c" "(of_char d :: nat) mod 2 ^ 64 = of_char d"
    by (rule mod_less, rule order_less_trans [OF nat_of_char_less_256], simp)+
  ultimately have "(of_char c :: nat) = of_char d" by (simp only: unat_of_nat len_num1 len_num0 len_bit0 len_bit1) simp
  then show "c = d" by simp
qed simp

section \<open>Drawing\<close>

definition Int63 :: "('w st, 63 word) go" where
  "Int63 = (\<lambda>s. (Ok (shd (rng s)), s\<lparr>rng := stl (rng s)\<rparr>))"

definition Int31_of :: "63 word \<Rightarrow> nat" where
  "Int31_of v = unat (drop_bit 32 v)"

text \<open>The loop \<open>for v > max { v = r.Int31() }\<close>.\<close>

partial_function (option) draw :: "nat \<Rightarrow> 63 word stream \<Rightarrow> (nat \<times> 63 word stream) option" where
  "draw bound r = (let v = Int31_of (shd r) in if bound < v then draw bound (stl r) else Some (v, stl r))"

definition Int31n_bound :: "nat \<Rightarrow> nat" where
  "Int31n_bound n = 2 ^ 31 - 1 - 2 ^ 31 mod n"

definition Int31n :: "nat \<Rightarrow> ('w st, nat) go" where
  "Int31n n =
     (if n = 0 then panicE (PanicMessage ''invalid argument to Int31n'')
      else if n AND (n - 1) = 0 then bindE Int63 (\<lambda>v. returnE (Int31_of v AND (n - 1)))
      else (\<lambda>s. case draw (Int31n_bound n) (rng s) of
                   None \<Rightarrow> (Panic Diverges, s)
                 | Some (v, r) \<Rightarrow> (Ok (v mod n), s\<lparr>rng := r\<rparr>)))"

definition letters :: string where
  "letters = ''abcdefghijklmnopqrstuvwxyz''"

text \<open>For an argument that fits 31 bits \<open>Intn\<close> is \<open>Int31n\<close>.\<close>

definition append_letter :: "string \<Rightarrow> nat \<Rightarrow> ('w st, string) go" where
  "append_letter generated i = bindE (Int31n (length letters)) (\<lambda>k. returnE (generated @ [letters ! k]))"

definition generateRandomSuffix :: "nat \<Rightarrow> ('w st, string) go" where
  "generateRandomSuffix n =
     foldE append_letter [] [0..<n]"

text \<open>A value the loop accepts.\<close>

definition acceptable :: "63 word \<Rightarrow> bool" where
  "acceptable v \<longleftrightarrow> Int31_of v \<le> Int31n_bound 26"

lemma draw_terminates:
  "Int31_of (r !! i) \<le> bound \<Longrightarrow> \<exists>v k. k \<le> i \<and> draw bound r = Some (v, sdrop (Suc k) r)"
proof (induction i arbitrary: r)
  case 0
  then show ?case by (subst draw.simps) auto
next
  case (Suc i)
  show ?case
  proof (cases "bound < Int31_of (shd r)")
    case True
    from Suc.prems have "Int31_of (stl r !! i) \<le> bound" by simp
    from Suc.IH [OF this] obtain v k where "k \<le> i" "draw bound (stl r) = Some (v, sdrop (Suc k) (stl r))" by blast
    with True show ?thesis by (subst draw.simps) (intro exI [of _ v] exI [of _ "Suc k"], simp)
  next
    case False
    then show ?thesis by (subst draw.simps) (intro exI [of _ "Int31_of (shd r)"] exI [of _ 0], simp)
  qed
qed

lemma Int31n_26:
  "Int31n 26 s = (case draw (Int31n_bound 26) (rng s) of
       None \<Rightarrow> (Panic Diverges, s) | Some (v, r) \<Rightarrow> (Ok (v mod 26), s\<lparr>rng := r\<rparr>))"
proof -
  have "(26 :: nat) AND 25 \<noteq> 0" by simp
  then show ?thesis by (simp add: Int31n_def)
qed

lemma length_letters: "length letters = 26"
  by (simp add: letters_def)

lemma append_letter_run:
  "append_letter g i s = (case draw (Int31n_bound 26) (rng s) of
       None \<Rightarrow> (Panic Diverges, s) | Some (v, r) \<Rightarrow> (Ok (g @ [letters ! (v mod 26)]), s\<lparr>rng := r\<rparr>))"
  by (simp add: append_letter_def length_letters bindE_def handleE_def Int31n_26 split: option.split)

text \<open>The suffix, without assuming that the loop ends.\<close>

lemma suffix_loop:
  assumes "foldE append_letter g is s = (r, s')"
    and "set g \<subseteq> set letters"
  shows "(case r of Ok suf \<Rightarrow> length suf = length g + length is \<and> set suf \<subseteq> set letters | Err _ \<Rightarrow> False | Panic p \<Rightarrow> p = Diverges)
     \<and> (\<exists>q. s' = s\<lparr>rng := q\<rparr>)"
  using assms
proof (induction "is" arbitrary: g s)
  case Nil
  then show ?case by (auto intro: exI [of _ "rng s"])
next
  case (Cons i "is")
  show ?case
  proof (cases "draw (Int31n_bound 26) (rng s)")
    case None
    with Cons.prems(1) show ?thesis
      by (auto simp: handleE_def append_letter_run [of g i s] intro: exI [of _ "rng s"])
  next
    case (Some vr)
    obtain v q where vr: "vr = (v, q)" by (cases vr)
    with Some Cons.prems(1) have rest: "foldE append_letter
        (g @ [letters ! (v mod 26)]) is (s\<lparr>rng := q\<rparr>) = (r, s')"
      by (simp add: handleE_def append_letter_run [of g i s])
    have "letters ! (v mod 26) \<in> set letters" by (rule nth_mem) (simp add: length_letters)
    then have "set (g @ [letters ! (v mod 26)]) \<subseteq> set letters" using Cons.prems(2) by simp
    from Cons.IH [OF rest this] show ?thesis by (auto split: outcome.splits)
  qed
qed

lemma generateRandomSuffix_spec:
  assumes "generateRandomSuffix n s = (r, s')"
  shows "case r of Ok suf \<Rightarrow> length suf = n \<and> set suf \<subseteq> set letters | Err _ \<Rightarrow> False | Panic p \<Rightarrow> p = Diverges"
    and "\<exists>q. s' = s\<lparr>rng := q\<rparr>"
  using suffix_loop [OF assms [unfolded generateRandomSuffix_def]] by (simp_all split: outcome.splits)

text \<open>A stream that never stops delivering acceptable values.\<close>

definition fair :: "63 word stream \<Rightarrow> bool" where
  "fair r \<longleftrightarrow> (\<forall>k. \<exists>i. acceptable (sdrop k r !! i))"

lemma fair_sdrop: "fair r \<Longrightarrow> fair (sdrop k r)"
  by (simp add: fair_def sdrop_add)

lemma suffix_loop_returns:
  "fair (rng s) \<Longrightarrow>
   \<exists>suf s'. foldE append_letter g is s = (Ok suf, s')"
proof (induction "is" arbitrary: g s)
  case (Cons i "is")
  from Cons.prems obtain j where "Int31_of (rng s !! j) \<le> Int31n_bound 26"
    unfolding fair_def acceptable_def by (metis sdrop.simps(1))
  from draw_terminates [OF this] obtain v k where d: "draw (Int31n_bound 26) (rng s) = Some (v, sdrop (Suc k) (rng s))"
    by blast
  have "fair (rng (s\<lparr>rng := sdrop (Suc k) (rng s)\<rparr>))" using fair_sdrop [OF Cons.prems, of "Suc k"] by simp
  from Cons.IH [OF this] d show ?case
    by (simp add: handleE_def append_letter_run [of g i s])
qed simp

lemma generateRandomSuffix_returns: "fair (rng s) \<Longrightarrow> \<exists>suf s'. generateRandomSuffix n s = (Ok suf, s')"
  unfolding generateRandomSuffix_def by (rule suffix_loop_returns)

lemma silent_generateRandomSuffix: "silent calls (generateRandomSuffix n)"
proof (rule silentI)
  fix s :: "'a st"
  obtain r s' where run: "generateRandomSuffix n s = (r, s')" by (cases "generateRandomSuffix n s")
  with generateRandomSuffix_spec(2) [OF run] show "calls (snd (generateRandomSuffix n s)) = calls s" by auto
qed

section \<open>Properties\<close>

text \<open>C38. Two boots of a host whose \<open>who -b\<close> lines differ in a single byte are seeded
  differently, wherever the byte stands: one step of the hash is a bijection of the 64-bit state for
  a fixed byte, and injective in the byte for a fixed state.\<close>

theorem seed_single_byte:
  "hashHostnameAndBoot host (pre @ c # post) = hashHostnameAndBoot host (pre @ d # post) \<longleftrightarrow> c = d"
  by (simp add: hashHostnameAndBoot_def fnv_Write_append fnv_Write_inj_state prime64_cancel xor_cancel of_char_word_inj)

text \<open>C25. A suffix consists of exactly the requested number of lower-case letters, and drawing it
  changes nothing but the generator; it returns if the generator never stops delivering values the
  loop accepts, and never fails in another way.\<close>

theorem generateRandomSuffix_letters:
  assumes "fair (rng s)"
  shows "\<exists>suf q. generateRandomSuffix n s = (Ok suf, s\<lparr>rng := q\<rparr>) \<and> length suf = n \<and> set suf \<subseteq> set letters"
proof -
  from generateRandomSuffix_returns [OF assms, of n] obtain suf s' where run: "generateRandomSuffix n s = (Ok suf, s')" by blast
  from generateRandomSuffix_spec [OF run] run show ?thesis by auto
qed

lemma fair_sconst: "fair (sconst 0)"
proof -
  have "sdrop k (sconst 0) = sconst (0 :: 63 word)" for k by (induction k) simp_all
  moreover have "acceptable (sconst 0 !! 0)" by (simp add: acceptable_def Int31_of_def)
  ultimately show ?thesis unfolding fair_def by metis
qed

theorem generateRandomSuffix_letters_witness:
  "\<exists>suf. fst (generateRandomSuffix 4 idle_state) = Ok suf \<and> length suf = 4 \<and> set suf \<subseteq> set letters"
  using generateRandomSuffix_letters [of idle_state 4] fair_sconst by (auto simp: idle_state_def)



end
