(* ===== verification/Phases.thy ===== *)
theory Phases
  imports Effects
begin

text \<open>
  The phases of a startup, in the order the program goes through them, and what it means for a trace
  to respect it.
\<close>

datatype phase = Declaring | Authorizing | Opening | Pulling | Cleaning | Mounting | Creating | Starting

fun phase_index :: "phase \<Rightarrow> nat" where
  "phase_index Declaring = 0"
| "phase_index Authorizing = 1"
| "phase_index Opening = 2"
| "phase_index Pulling = 3"
| "phase_index Cleaning = 4"
| "phase_index Mounting = 5"
| "phase_index Creating = 6"
| "phase_index Starting = 7"

lemma phase_index_inj: "phase_index p = phase_index q \<Longrightarrow> p = q"
  by (cases p; cases q) simp_all

instantiation phase :: linorder
begin

definition less_eq_phase :: "phase \<Rightarrow> phase \<Rightarrow> bool" where
  "less_eq_phase p q \<longleftrightarrow> phase_index p \<le> phase_index q"

definition less_phase :: "phase \<Rightarrow> phase \<Rightarrow> bool" where
  "less_phase p q \<longleftrightarrow> phase_index p < phase_index q"

instance
  by standard (auto simp: less_eq_phase_def less_phase_def dest: phase_index_inj)

end

lemmas phase_order = less_eq_phase_def less_phase_def

text \<open>The script on the host is written when everything else is over; it has no phase.\<close>

fun phase_of :: "call \<Rightarrow> phase option" where
  "phase_of (CManifest _) = Some Declaring"
| "phase_of (CToken _) = Some Authorizing"
| "phase_of (CExec _ _) = Some Opening"
| "phase_of (CImagePull _ _ _) = Some Pulling"
| "phase_of (CReadBody _ _) = Some Pulling"
| "phase_of (CCloseBody _) = Some Pulling"
| "phase_of (CContainerList _ _) = Some Cleaning"
| "phase_of (CContainerRemove _ _ _) = Some Cleaning"
| "phase_of (CRun _ _) = Some Mounting"
| "phase_of (CMkdirAll _ _ _) = Some Mounting"
| "phase_of (CStat _ _) = Some Mounting"
| "phase_of (CDisks _) = Some Mounting"
| "phase_of (CContainerCreate _ _ _ _) = Some Creating"
| "phase_of (CContainerStart _ _) = Some Starting"
| "phase_of (CWriteFile _ _ _ _) = None"

definition within :: "phase \<Rightarrow> phase \<Rightarrow> call list \<Rightarrow> bool" where
  "within lo hi evs \<longleftrightarrow> (\<exists>ps. map phase_of evs = map Some ps \<and> sorted ps \<and> (\<forall>p \<in> set ps. lo \<le> p \<and> p \<le> hi))"

lemma within_Nil [simp]: "within lo hi []"
  by (simp add: within_def)

lemma within_single: "phase_of ev = Some p \<Longrightarrow> lo \<le> p \<Longrightarrow> p \<le> hi \<Longrightarrow> within lo hi [ev]"
  by (auto simp: within_def intro!: exI [of _ "[p]"])

lemma within_same: "\<forall>ev \<in> set evs. phase_of ev = Some p \<Longrightarrow> within p p evs"
  unfolding within_def
  by (intro exI [of _ "replicate (length evs) p"]) (auto simp: sorted_replicate intro: nth_equalityI)

lemma within_append:
  assumes "within a b xs" and "within c d ys" and "b \<le> c" and "a \<le> c" and "b \<le> d"
  shows "within a d (xs @ ys)"
proof -
  from assms(1) obtain ps where ps: "map phase_of xs = map Some ps" "sorted ps" "\<forall>p \<in> set ps. a \<le> p \<and> p \<le> b"
    by (auto simp: within_def)
  from assms(2) obtain qs where qs: "map phase_of ys = map Some qs" "sorted qs" "\<forall>p \<in> set qs. c \<le> p \<and> p \<le> d"
    by (auto simp: within_def)
  have "x \<le> y" if "x \<in> set ps" "y \<in> set qs" for x y
    using that ps(3) qs(3) assms(3) by (meson order_trans)
  then have "sorted (ps @ qs)"
    using ps qs by (simp add: sorted_append)
  moreover have "\<forall>p \<in> set (ps @ qs). a \<le> p \<and> p \<le> d"
    using ps qs assms(4,5) by (auto intro: order_trans)
  ultimately show ?thesis
    using ps(1) qs(1) unfolding within_def by (intro exI [of _ "ps @ qs"]) simp
qed

text \<open>The order two phases have in a trace.\<close>

lemma within_order:
  assumes "within lo hi (pre @ e # mid @ f # post)" and "phase_of e = Some p" and "phase_of f = Some q"
  shows "p \<le> q"
proof -
  from assms(1) obtain ps where ps: "map phase_of (pre @ e # mid @ f # post) = map Some ps" "sorted ps"
    by (auto simp: within_def)
  let ?i = "length pre" and ?j = "length pre + Suc (length mid)"
  have len: "length ps = length pre + Suc (length mid + Suc (length post))"
    using arg_cong [OF ps(1), of length] by simp
  have "map Some ps ! ?i = Some p" "map Some ps ! ?j = Some q"
    unfolding ps(1) [symmetric] using assms(2,3) by (simp_all add: nth_append)
  then have "ps ! ?i = p" "ps ! ?j = q" using len by simp_all
  moreover have "ps ! ?i \<le> ps ! ?j" using ps(2) len by (intro sorted_nth_mono) simp_all
  ultimately show ?thesis by simp
qed

section \<open>Programs that respect the order\<close>

definition phased :: "phase \<Rightarrow> phase \<Rightarrow> ('w st, 'a) go \<Rightarrow> bool" where
  "phased lo hi m \<longleftrightarrow> emits calls m (\<lambda>evs r. within lo hi evs)"

lemma phased_silent: "silent calls m \<Longrightarrow> phased lo hi m"
  unfolding phased_def silent_emits by (erule emits_weaken) simp

lemma phased_basic: "phased lo hi (returnE v)" "phased lo hi (throwE e)" "phased lo hi (panicE p)" "phased lo hi (log_Printf msg)"
  by (auto intro: phased_silent)

lemma phased_emits: "emits calls m S \<Longrightarrow> (\<And>evs r. S evs r \<Longrightarrow> within lo hi evs) \<Longrightarrow> phased lo hi m"
  unfolding phased_def by (rule emits_weaken)

lemma phased_handle:
  assumes "phased a b m" and "\<And>e. phased c d (h e)" and "\<And>v. phased c d (k v)" and "b \<le> c \<and> a \<le> c \<and> b \<le> d"
  shows "phased a d (handleE m h k)"
  unfolding phased_def
proof (rule emits_handle [OF assms(1) [unfolded phased_def]])
  have "within a d ([] @ xs)" if "within a b xs" for xs
    using within_append [OF that within_Nil [of c d]] assms(4) by simp
  then show "within a d evs" if "within a b evs" for evs using that by simp
qed (use assms in \<open>auto simp: phased_def intro: emits_weaken within_append\<close>)

lemma phased_bind:
  assumes "phased a b m" and "\<And>v. phased c d (k v)" and "b \<le> c \<and> a \<le> c \<and> b \<le> d"
  shows "phased a d (bindE m k)"
  unfolding bindE_def by (rule phased_handle [OF assms(1) _ assms(2,3)]) (auto intro: phased_silent)

lemma phased_seq:
  assumes "phased a b m" and "phased c d k" and "b \<le> c \<and> a \<le> c \<and> b \<le> d"
  shows "phased a d (seqE m k)"
  unfolding seqE_def by (rule phased_handle [OF assms(1) _ assms(2,3)]) (auto intro: phased_silent)

lemma phased_log: "phased a d k \<Longrightarrow> phased a d (seqE (log_Printf msg) k)"
  unfolding phased_def by (rule emits_log)

end
