(* ===== verification/Runtime.thy ===== *)
theory Runtime
  imports Prepare Containers Randomness Phases
begin

text \<open>
  The second half of \<open>runtime/runtime.go\<close>: the runner and its construction, and the creation
  and start of the container.
\<close>

section \<open>The runner\<close>

text \<open>
  \<open>VolumesEnv\<close> is never nil in a runner that \<open>GetDefaultRunner\<close> built, and the generator
  behind \<open>RandEnv\<close> is part of the state.
\<close>

record 'w ContainerRunner =
  cr_Client :: "'w DockerApiClient"
  cr_VolumesEnv :: "'w Env"

definition DOCKER_UNIX_SOCKET :: string where "DOCKER_UNIX_SOCKET = ''unix:///var/run/docker.sock''"
definition CONTAINER_NAME_PREFIX :: string where "CONTAINER_NAME_PREFIX = ''klt''"

definition os_Hostname :: "'w Sys \<Rightarrow> ('w st, string) go" where
  "os_Hostname sys = (\<lambda>s. (of_sum (sys_Hostname sys (world s)), s))"

definition seed_rng :: "63 word stream \<Rightarrow> ('w st, unit) go" where
  "seed_rng numbers = (\<lambda>s. (Ok (), s\<lparr>rng := numbers\<rparr>))"

text \<open>
  \<open>newClient\<close> is the constructor of the Docker client, \<open>newSource\<close> the seeded source of
  Go's \<open>math/rand\<close>.
\<close>

definition GetDefaultRunner :: "'w Sys \<Rightarrow> (string \<Rightarrow> go_error + 'w DockerApiClient) \<Rightarrow> (64 word \<Rightarrow> 63 word stream)
    \<Rightarrow> volume_flags \<Rightarrow> (string \<Rightarrow> go_error + DiskEntry list) \<Rightarrow> map_order \<Rightarrow> 'w OsCommandRunner \<Rightarrow> 'w Provider
    \<Rightarrow> ('w st, 'w ContainerRunner) go" where
  "GetDefaultRunner sys newClient newSource vflags parse ord osCommandRunner metadataProvider =
     bindE (lift_result (newClient DOCKER_UNIX_SOCKET)) (\<lambda>dockerClient.
     bindE (os_Hostname sys) (\<lambda>hostname.
     bindE (call_Run osCommandRunner [''who'', ''-b'']) (\<lambda>lastBootTime.
     seqE (seed_rng (newSource (hashHostnameAndBoot hostname lastBootTime)))
       (returnE \<lparr>cr_Client = dockerClient, cr_VolumesEnv = volumesEnv vflags osCommandRunner metadataProvider parse ord\<rparr>))))"

section \<open>A warning about the command line\<close>

definition containsWhitespace :: "string \<Rightarrow> bool" where
  "containsWhitespace s = list_ex IsSpace (runes s)"

definition printWarningIfLikelyHasMistake :: "string list option \<Rightarrow> string list option \<Rightarrow> ('w st, unit) go" where
  "printWarningIfLikelyHasMistake command args =
     (let commandAndArgs = (case command of Some c \<Rightarrow> c | None \<Rightarrow> []) @ (case args of Some a \<Rightarrow> a | None \<Rightarrow> [])
      in if length commandAndArgs = 1 \<and> containsWhitespace (commandAndArgs ! 0)
         then (let fields = Fields (commandAndArgs ! 0); q = [CHR 0x22]
               in if 1 < length fields
                  then log_Printf (''Warning: executable '' @ q @ commandAndArgs ! 0 @ q @ '' contains whitespace, which is ''
                    @ ''likely not what you intended. If your intention was to provide '' @ ''arguments to '' @ q @ fields ! 0 @ q
                    @ '' and you are using gcloud, use the '' @ q @ ''--container-arg'' @ q
                    @ '' option. If you are using Google Cloud Console, '' @ ''specify the arguments separately under '' @ q
                    @ ''Command and arguments'' @ q @ '' in '' @ q @ ''Advanced container options'' @ q @ ''.'')
                  else log_Printf (''Warning: executable '' @ q @ commandAndArgs ! 0 @ q @ '' contains whitespace, which is ''
                    @ ''likely not what you intended. Maybe you accidentally left '' @ ''leading/trailing whitespace?''))
         else returnE ())"

section \<open>Creating the container\<close>

text \<open>The context is a cancellable background context, cancelled when the function returns: until then it has no error.\<close>

definition ctx_Err :: "go_error option" where "ctx_Err = None"

definition contextError :: "go_error option \<Rightarrow> string \<Rightarrow> go_error option" where
  "contextError ctxErr operationType =
     (if ctxErr = Some DeadlineExceeded then Some (OperationTimeout DeadlineExceeded operationType) else ctxErr)"

definition call_ContainerCreate :: "'w DockerApiClient \<Rightarrow> DockerConfig \<Rightarrow> DockerHostConfig \<Rightarrow> string \<Rightarrow> ('w st, string) go" where
  "call_ContainerCreate client config hostConfig containerName =
     observe (CContainerCreate config hostConfig containerName) (external of_sum (ContainerCreate client config hostConfig containerName))"

definition call_ContainerStart :: "'w DockerApiClient \<Rightarrow> string \<Rightarrow> ('w st, unit) go" where
  "call_ContainerStart client containerID = observe (CContainerStart containerID) (external of_err (ContainerStart client containerID))"

definition generatedName :: "string \<Rightarrow> string \<Rightarrow> string" where
  "generatedName name suf = CONTAINER_NAME_PREFIX @ ''-'' @ name @ ''-'' @ suf"

definition hostPathBind :: "HostPathBindConfiguration \<Rightarrow> string" where
  "hostPathBind b =
     (let bind = bc_HostPath b @ '':'' @ bc_ContainerPath b
      in if bc_ReadOnly b then bind @ '':ro'' else bind)"

definition restartPolicyName :: "RestartPolicy option \<Rightarrow> go_error + string" where
  "restartPolicyName policy =
     (case policy of
        None \<Rightarrow> Inr ''always''
      | Some p \<Rightarrow> if p = RestartPolicyAlways then Inr ''always''
          else if p = RestartPolicyOnFailure then Inr ''on-failure''
          else if p = RestartPolicyNever then Inr ''no''
          else Inl (ErrorString (''Invalid container declaration: Unsupported container restart policy '' @ [CHR 0x27] @ p @ [CHR 0x27])))"

definition docker_config :: "Container \<Rightarrow> DockerConfig" where
  "docker_config container =
     \<lparr>cfg_Entrypoint = ct_Command container, cfg_Cmd = ct_Args container, cfg_Image = ct_Image container,
      cfg_Env = map (\<lambda>envVar. ev_Name envVar @ ''='' @ ev_Value envVar) (ct_Env container),
      cfg_OpenStdin = ct_StdIn container, cfg_Tty = ct_Tty container\<rparr>"

definition host_config :: "Container \<Rightarrow> HostPathBindConfiguration list \<Rightarrow> string \<Rightarrow> DockerHostConfig" where
  "host_config container binds restartPolicy =
     \<lparr>hc_Binds = map hostPathBind binds, hc_AutoRemove = False, hc_NetworkMode = ''host'',
      hc_Privileged = Privileged (ct_SecurityContext container), hc_LogType = ''json-file'',
      hc_LogConfig = [(''max-size'', ''500m''), (''max-file'', ''3'')], hc_RestartPolicyName = restartPolicy\<rparr>"

text \<open>The last part of \<open>createContainer\<close>, once the volumes are prepared.\<close>

definition finishCreation :: "'w DockerApiClient \<Rightarrow> Container \<Rightarrow> HostPathBindConfiguration list go_map \<Rightarrow> RestartPolicy option
    \<Rightarrow> string \<Rightarrow> ('w st, string) go" where
  "finishCreation client container bindingMap restartPolicy generatedContainerName =
     (case map_get bindingMap (ct_Name container) of
        None \<Rightarrow> throwE (ErrorString (''Volume binding configuration for container '' @ ct_Name container @ '' not found in the map. This should not happen.''))
      | Some binds \<Rightarrow>
          (case restartPolicyName restartPolicy of
             Inl err \<Rightarrow> throwE err
           | Inr policy \<Rightarrow>
               handleE (call_ContainerCreate client (docker_config container) (host_config container binds policy) generatedContainerName)
                 (\<lambda>err. case contextError ctx_Err ''Create container'' of Some ctxErr \<Rightarrow> throwE ctxErr | None \<Rightarrow> throwE err)
                 (\<lambda>createdID. case contextError ctx_Err ''Create container'' of
                      Some ctxErr \<Rightarrow> throwE ctxErr
                    | None \<Rightarrow> seqE (log_Printf (''Created a container with name '' @ [CHR 0x27] @ generatedContainerName
                          @ [CHR 0x27] @ '' and ID: '' @ createdID))
                        (returnE createdID))))"

definition createContainer :: "'w ContainerRunner \<Rightarrow> string \<Rightarrow> ContainerSpecStruct \<Rightarrow> ('w st, string) go" where
  "createContainer runner auth spec =
     (if length (Containers spec) \<noteq> 1 then throwE (ErrorString ''Exactly one container in declaration expected.'')
      else let container = Containers spec ! 0; env = cr_VolumesEnv runner; client = cr_Client runner in
      bindE (generateRandomSuffix 4) (\<lambda>suf.
      let generatedContainerName = generatedName (ct_Name container) suf in
      seqE (log_Printf (''Configured container '' @ [CHR 0x27] @ ct_Name container @ [CHR 0x27] @ '' will be started with name ''
        @ [CHR 0x27] @ generatedContainerName @ [CHR 0x27] @ ''.'' @ [newline]))
      (seqE (pullImage client auth container)
      (seqE (deleteOldContainers (env_Order env) client (ct_Name container))
      (seqE (printWarningIfLikelyHasMistake (ct_Command container) (ct_Args container))
      (seqE (handleE (UnmountExistingVolumes env)
               (\<lambda>err. log_Printf (''Error: failed to unmount volumes:'' @ [newline] @ Error err)) (\<lambda>_. returnE ()))
      (bindE (PrepareVolumesAndGetBindings env spec) (\<lambda>bindingMap.
       finishCreation client container bindingMap (spec_RestartPolicy spec) generatedContainerName))))))))"

definition startContainer :: "'w DockerApiClient \<Rightarrow> string \<Rightarrow> ('w st, unit) go" where
  "startContainer dockerClient containerID =
     seqE (log_Printf (''Starting a container with ID: '' @ containerID)) (call_ContainerStart dockerClient containerID)"

text \<open>The parameter \<open>detach\<close> is not used.\<close>

definition RunContainer :: "'w ContainerRunner \<Rightarrow> string \<Rightarrow> ContainerSpecStruct \<Rightarrow> bool \<Rightarrow> ('w st, unit) go" where
  "RunContainer runner auth spec detach =
     bindE (createContainer runner auth spec) (\<lambda>containerID. startContainer (cr_Client runner) containerID)"

section \<open>Trace specifications\<close>

lemma emits_create_start:
  "emits calls (call_ContainerCreate client cfg hc name) (\<lambda>evs r. evs = [CContainerCreate cfg hc name r] \<and> (\<forall>p. r \<noteq> Panic p))"
  "emits calls (call_ContainerStart client i) (\<lambda>evs r. evs = [CContainerStart i r] \<and> (\<forall>p. r \<noteq> Panic p))"
  by (rule emitsI; simp add: call_ContainerCreate_def call_ContainerStart_def observe_def external_def split: prod.split)+

lemma silent_warning [simp]: "silent calls (printWarningIfLikelyHasMistake command args)"
  unfolding printWarningIfLikelyHasMistake_def Let_def by (auto intro: silent_log)

lemma warning_ok [simp]: "is_ok (fst (printWarningIfLikelyHasMistake command args s))"
  unfolding printWarningIfLikelyHasMistake_def Let_def by simp

text \<open>A trace in which no container was created.\<close>

definition creates_nothing :: "call list \<Rightarrow> bool" where
  "creates_nothing evs \<longleftrightarrow> (\<forall>cfg hc name i. CContainerCreate cfg hc name (Ok i) \<notin> set evs)"

definition starts_nothing :: "call list \<Rightarrow> bool" where
  "starts_nothing evs \<longleftrightarrow> (\<forall>i x. CContainerStart i x \<notin> set evs)"

definition no_container :: "call list \<Rightarrow> bool" where
  "no_container evs \<longleftrightarrow> creates_nothing evs \<and> starts_nothing evs"

lemma no_container_simps [simp]:
  "no_container []"
  "no_container (a @ b) \<longleftrightarrow> no_container a \<and> no_container b"
  by (auto simp: no_container_def creates_nothing_def starts_nothing_def)

lemma volume_calls_no_container: "list_all volume_call evs \<Longrightarrow> no_container evs"
  by (auto simp: no_container_def creates_nothing_def starts_nothing_def list_all_iff)

lemma pull_no_container: "pull_trace img auth evs r \<Longrightarrow> no_container evs"
  by (auto simp: pull_trace_def Let_def no_container_def creates_nothing_def starts_nothing_def)

lemma cleanup_no_container: "cleanup_trace raw evs r \<Longrightarrow> no_container evs"
  by (auto simp: cleanup_trace_def no_container_def creates_nothing_def starts_nothing_def dest: script_entries)

text \<open>
  A creation that succeeded: image pulled, old containers removed, leftover mounts unmounted (which
  may fail), volumes prepared, and one container created from the declaration and the bindings.
\<close>

definition creation :: "'w Env \<Rightarrow> string \<Rightarrow> ContainerSpecStruct \<Rightarrow> string \<Rightarrow> call list \<Rightarrow> bool" where
  "creation env auth spec i evs \<longleftrightarrow>
     (\<exists>c suf pull clean unm x prep b binds policy.
        Containers spec = [c] \<and> length suf = 4 \<and> set suf \<subseteq> set letters
      \<and> pull_trace (ct_Image c) auth pull (Ok ())
      \<and> cleanup_trace (ct_Name c) clean (Ok ())
      \<and> unmount_trace env unm x
      \<and> consistent spec \<and> preparation env spec b prep \<and> list_all volume_call prep \<and> map_get b (ct_Name c) = Some binds
      \<and> restartPolicyName (spec_RestartPolicy spec) = Inr policy
      \<and> evs = pull @ clean @ unm @ prep @
          [CContainerCreate (docker_config c) (host_config c binds policy) (generatedName (ct_Name c) suf) (Ok i)])"

lemma unmount_no_container: "unmount_trace env evs x \<Longrightarrow> no_container evs"
  by (auto simp: unmount_trace_def Let_def no_container_def creates_nothing_def starts_nothing_def dest: in_set_zipE)

lemma creation_starts_nothing: "creation env auth spec i evs \<Longrightarrow> starts_nothing evs"
  by (auto simp: creation_def starts_nothing_def no_container_def
      dest!: pull_no_container cleanup_no_container unmount_no_container volume_calls_no_container)

text \<open>The environment of a runner: reliable, and its package makes no calls of the Docker engine.\<close>

locale runner_env = reliable_env env + host: volume_policy env "list_all volume_call" for env :: "'w Env"
begin

lemma emits_pull_step: "emits calls (pullImage client auth c) (good_or_bad (\<lambda>_ evs. pull_trace (ct_Image c) auth evs (Ok ())) no_container)"
  by (rule emits_good_or_bad [OF emits_pullImage]) (auto intro: pull_no_container)

lemma emits_cleanup_step:
  assumes "valid_order ord"
  shows "emits calls (deleteOldContainers ord client raw) (good_or_bad (\<lambda>_ evs. cleanup_trace raw evs (Ok ())) no_container)"
  by (rule emits_good_or_bad [OF emits_deleteOldContainers [OF assms]]) (auto intro: cleanup_no_container)

lemma emits_unmount_step:
  "emits calls (handleE (UnmountExistingVolumes env) (\<lambda>err. log_Printf (msg err)) (\<lambda>_. returnE ()))
     (good_or_bad (\<lambda>_ evs. \<exists>x. unmount_trace env evs x) no_container)"
proof (rule emits_handle [OF unmounts], goal_cases)
  case (1 v evs0)
  then show ?case by (intro emits_return) auto
next
  case (2 e evs0)
  then show ?case by (intro emitsI) (auto simp: log_Printf_def)
qed (auto intro: unmount_no_container)

lemma emits_prepare_step:
  assumes "valid_order (env_Order env)"
  shows "emits calls (PrepareVolumesAndGetBindings env spec)
     (good_or_bad (\<lambda>b evs. consistent spec \<and> preparation env spec b evs \<and> list_all volume_call evs) no_container)"
  by (rule emits_weaken [OF emits_conj [OF emits_Prepare [OF assms] host.keeps_Prepare [unfolded keeps_def]]])
    (auto simp: good_or_bad_def intro: volume_calls_no_container split: outcome.splits)

lemma emits_create_step:
  "emits calls (handleE (call_ContainerCreate client cfg hc name)
      (\<lambda>err. case contextError ctx_Err what of Some ctxErr \<Rightarrow> throwE ctxErr | None \<Rightarrow> throwE err)
      (\<lambda>createdID. case contextError ctx_Err what of Some ctxErr \<Rightarrow> throwE ctxErr
         | None \<Rightarrow> seqE (log_Printf (msg createdID)) (returnE createdID)))
     (good_or_bad (\<lambda>i evs. evs = [CContainerCreate cfg hc name (Ok i)]) no_container)"
  unfolding contextError_def ctx_Err_def option.distinct if_False option.case
proof (simp only: option.distinct simp_thms if_False option.case, rule emits_handle [OF emits_create_start(1)], goal_cases)
  case (1 i evs0)
  then show ?case by (intro emits_log emits_return) simp
next
  case (2 e evs0)
  then show ?case by (intro emits_throw) (simp add: no_container_def creates_nothing_def starts_nothing_def)
qed simp

lemma emits_createContainer:
  assumes ord: "valid_order (env_Order env)" and runner: "cr_VolumesEnv runner = env"
  shows "emits calls (createContainer runner auth spec) (good_or_bad (creation env auth spec) no_container)"
proof (cases "\<exists>c. Containers spec = [c]")
  case False
  then have "length (Containers spec) \<noteq> 1" by (auto simp: length_Suc_conv)
  then show ?thesis unfolding createContainer_def finishCreation_def if_P [OF \<open>length (Containers spec) \<noteq> 1\<close>] by (intro emits_throw) simp
next
  case True
  then obtain c where c: "Containers spec = [c]" by blast
  have one: "(length [c] \<noteq> 1) = False" "[c] ! 0 = c" by simp_all
  have suf: "emits calls (generateRandomSuffix 4) (good_or_bad (\<lambda>suf evs. evs = [] \<and> length suf = 4 \<and> set suf \<subseteq> set letters) no_container)"
  proof (rule emitsI)
    fix s :: "'a st"
    obtain r s' where run: "generateRandomSuffix 4 s = (r, s')" by (cases "generateRandomSuffix 4 s")
    with generateRandomSuffix_spec [OF run] show "\<exists>evs. calls (snd (generateRandomSuffix 4 s)) = calls s @ evs \<and>
        good_or_bad (\<lambda>suf evs. evs = [] \<and> length suf = 4 \<and> set suf \<subseteq> set letters) no_container evs (fst (generateRandomSuffix 4 s))"
      by (cases r) auto
  qed
  have "emits calls (createContainer runner auth spec) (\<lambda>evs. good_or_bad (creation env auth spec) no_container ([] @ evs))"
    unfolding createContainer_def finishCreation_def c one if_False Let_def runner bindE_def
  proof (rule emits_then_next [OF suf], goal_cases)
    case (1 suf e0)
    note suf = this
    show ?case
    proof (rule emits_log, rule emits_seq_next [OF emits_pull_step], goal_cases)
      case (1 u pull)
      note pull = this
      show ?case
      proof (rule emits_seq_next [OF emits_cleanup_step [OF ord]], goal_cases)
        case (1 u clean)
        note clean = this
        show ?case
        proof (rule emits_seq_silent [OF silent_warning warning_ok], rule emits_seq_next [OF emits_unmount_step], goal_cases)
          case (1 u unm)
          then obtain x where unm: "unmount_trace env unm x" by blast
          note quiet = pull_no_container [OF pull] cleanup_no_container [OF clean] unmount_no_container [OF unm]
          show ?case
          proof (rule emits_then_next [OF emits_prepare_step [OF ord]], goal_cases)
            case (1 b prep)
            note prep = this
            have prep_quiet: "no_container prep" using prep by (blast intro: volume_calls_no_container)
            show ?case
            proof (cases "map_get b (ct_Name c)")
              case None
              show ?thesis unfolding None option.case
                by (rule emits_throw) (use suf quiet prep_quiet in simp)
            next
              case (Some binds)
              show ?thesis
              proof (cases "restartPolicyName (spec_RestartPolicy spec)")
                case (Inl e)
                show ?thesis unfolding Some option.case Inl sum.case
                  by (rule emits_throw) (use suf quiet prep_quiet in simp)
              next
                case (Inr policy)
                show ?thesis unfolding Some option.case Inr sum.case
                proof (rule emits_weaken [OF emits_create_step], goal_cases)
                  case (1 evs r)
                  show ?case
                  proof (cases r)
                    case (Ok i)
                    with 1 suf pull clean unm prep c Some Inr show ?thesis
                      unfolding Ok good_or_bad_simps creation_def
                      by (intro exI [of _ c] exI [of _ suf] exI [of _ pull] exI [of _ clean] exI [of _ unm] exI [of _ x]
                          exI [of _ prep] exI [of _ b] exI [of _ binds] exI [of _ policy]) simp
                  qed (use 1 suf quiet prep_quiet in simp_all)
                qed
              qed
            qed
          qed (use suf quiet in simp)
        qed (use suf pull clean in \<open>auto intro: pull_no_container cleanup_no_container\<close>)
      qed (use suf pull in \<open>auto intro: pull_no_container\<close>)
    qed (use suf in simp)
  qed simp
  then show ?thesis by simp
qed

text \<open>A run that succeeded ends with the start of the container it created.\<close>

lemma emits_RunContainer:
  assumes ord: "valid_order (env_Order env)" and runner: "cr_VolumesEnv runner = env"
  shows "emits calls (RunContainer runner auth spec detach)
    (good_or_bad (\<lambda>_ evs. \<exists>i pre. creation env auth spec i pre \<and> evs = pre @ [CContainerStart i (Ok ())])
       (\<lambda>evs. \<forall>i. CContainerStart i (Ok ()) \<notin> set evs))"
  unfolding RunContainer_def bindE_def startContainer_def
proof (rule emits_then [OF emits_createContainer [OF ord runner]], goal_cases)
  case (1 i pre)
  have no_start: "CContainerStart j (Ok ()) \<notin> set pre" for j
    using creation_starts_nothing [OF 1] by (simp add: starts_nothing_def)
  show ?case
    by (intro emits_log emits_weaken [OF emits_create_start(2)])
      (use 1 no_start in \<open>auto simp: good_or_bad_def split: outcome.splits\<close>)
qed (auto simp: no_container_def starts_nothing_def)

lemma returns_create_start [returns_intros]:
  "returns (call_ContainerCreate client cfg hc name)" "returns (call_ContainerStart client i)"
  unfolding call_ContainerCreate_def call_ContainerStart_def
  by (intro returns_observe returns_external; simp)+

lemma returns_warning [returns_intros]: "returns (printWarningIfLikelyHasMistake command args)"
  unfolding printWarningIfLikelyHasMistake_def Let_def by (auto intro: returns_intros)

text \<open>A run does not panic; it can only loop, in the drawing of a name from a generator that is not fair.\<close>

lemma suffix_panics: "fst (generateRandomSuffix n s) = Panic p \<Longrightarrow> p = Diverges \<and> \<not> fair (rng s)"
  using generateRandomSuffix_spec(1) [of n s] generateRandomSuffix_returns [of s n]
  by (cases "generateRandomSuffix n s") fastforce

lemma createContainer_panics:
  assumes "fst (createContainer runner auth spec s) = Panic p" and runner: "cr_VolumesEnv runner = env"
  shows "p = Diverges \<and> \<not> fair (rng s)"
proof (cases "length (Containers spec) \<noteq> 1")
  case True
  show ?thesis using assms(1) unfolding createContainer_def finishCreation_def if_P [OF True] by simp
next
  case False
  have "fst (generateRandomSuffix 4 s) = Panic p"
    using assms(1) unfolding createContainer_def finishCreation_def if_not_P [OF False] Let_def runner bindE_def [of "generateRandomSuffix 4"]
    by (rule panics_handle_at) (auto intro!: returns_intros split: option.split sum.split)
  then show ?thesis by (rule suffix_panics)
qed

lemma RunContainer_panics:
  assumes "fst (RunContainer runner auth spec detach s) = Panic p" and "cr_VolumesEnv runner = env"
  shows "p = Diverges \<and> \<not> fair (rng s)"
proof (rule createContainer_panics [OF _ assms(2)])
  show "fst (createContainer runner auth spec s) = Panic p"
    using assms(1) unfolding RunContainer_def bindE_def startContainer_def
    by (rule panics_handle_at) (auto intro!: returns_intros)
qed

lemma volume_call_phase: "list_all volume_call evs \<Longrightarrow> within Mounting Mounting evs"
proof (rule within_same)
  show "\<forall>ev \<in> set evs. phase_of ev = Some Mounting" if "list_all volume_call evs"
  proof
    fix ev assume "ev \<in> set evs"
    with that have "volume_call ev" by (simp add: list_all_iff)
    then show "phase_of ev = Some Mounting" by (cases ev) simp_all
  qed
qed

text \<open>The steps of a run, each in its phase.\<close>

lemma phased_steps:
  "phased Pulling Pulling (generateRandomSuffix 4)"
  "phased Pulling Pulling (pullImage client auth c)"
  "valid_order ord \<Longrightarrow> phased Cleaning Cleaning (deleteOldContainers ord client raw)"
  "phased Cleaning Cleaning (printWarningIfLikelyHasMistake command args)"
  "phased Mounting Mounting (UnmountExistingVolumes env)"
  "phased Mounting Mounting (PrepareVolumesAndGetBindings env spec)"
  "phased Creating Creating (call_ContainerCreate client cfg hc name)"
  "phased Starting Starting (startContainer client i)"
proof -
  show "phased Pulling Pulling (generateRandomSuffix 4)" by (rule phased_silent [OF silent_generateRandomSuffix])
  show "phased Pulling Pulling (pullImage client auth c)"
    by (rule phased_emits [OF emits_pullImage], rule within_same) (auto simp: pull_trace_def Let_def)
  show "valid_order ord \<Longrightarrow> phased Cleaning Cleaning (deleteOldContainers ord client raw)"
    by (rule phased_emits [OF emits_deleteOldContainers], assumption, rule within_same)
      (auto simp: cleanup_trace_def dest!: script_entries)
  show "phased Cleaning Cleaning (printWarningIfLikelyHasMistake command args)" by (rule phased_silent) simp
  show "phased Mounting Mounting (UnmountExistingVolumes env)"
    using host.keeps_volumes(5) unfolding keeps_def by (rule phased_emits) (rule volume_call_phase)
  show "phased Mounting Mounting (PrepareVolumesAndGetBindings env spec)"
    using host.keeps_Prepare unfolding keeps_def by (rule phased_emits) (rule volume_call_phase)
  show "phased Creating Creating (call_ContainerCreate client cfg hc name)"
    by (rule phased_emits [OF emits_create_start(1)], rule within_same) simp
  show "phased Starting Starting (startContainer client i)"
    unfolding startContainer_def
    by (intro phased_log, rule phased_emits [OF emits_create_start(2)], rule within_same) simp
qed

lemma phased_createContainer:
  assumes ord: "valid_order (env_Order env)" and runner: "cr_VolumesEnv runner = env"
  shows "phased Pulling Creating (createContainer runner auth spec)"
proof (cases "length (Containers spec) \<noteq> 1")
  case True
  show ?thesis unfolding createContainer_def finishCreation_def if_P [OF True] by (rule phased_silent) simp
next
  case False
  note order = phase_order
  have unmount: "phased Mounting Mounting (handleE (UnmountExistingVolumes env) (\<lambda>err. log_Printf (msg err)) (\<lambda>_. returnE ()))" for msg
    by (rule phased_handle [OF phased_steps(5), where c = Mounting]) (auto intro: phased_silent simp: order)
  show ?thesis
    unfolding createContainer_def finishCreation_def if_not_P [OF False] Let_def runner
  proof (rule phased_bind [OF phased_steps(1), where c = Pulling], rule phased_log, rule phased_seq [OF phased_steps(2), where c = Cleaning],
      rule phased_seq [OF phased_steps(3) [OF ord], where c = Cleaning], rule phased_seq [OF phased_steps(4), where c = Mounting],
      rule phased_seq [OF unmount, where c = Mounting], rule phased_bind [OF phased_steps(6), where c = Creating], goal_cases)
    case (1 suf b)
    show ?case
    proof (cases "map_get b (ct_Name (Containers spec ! 0))")
      case None
      then show ?thesis by (auto intro: phased_silent)
    next
      case (Some binds)
      show ?thesis
      proof (cases "restartPolicyName (spec_RestartPolicy spec)")
        case (Inl e)
        with Some show ?thesis by (auto intro: phased_silent)
      next
        case (Inr policy)
        show ?thesis
          unfolding Some Inr option.case sum.case
          by (rule phased_handle [OF phased_steps(7), where c = Creating])
            (auto intro!: phased_silent silent_seq split: option.split simp: order)
      qed
    qed
  qed (simp_all add: order)
qed

lemma phased_RunContainer:
  assumes "valid_order (env_Order env)" and "cr_VolumesEnv runner = env"
  shows "phased Pulling Starting (RunContainer runner auth spec detach)"
  unfolding RunContainer_def
  by (rule phased_bind [OF phased_createContainer [OF assms] phased_steps(8)]) (simp add: phase_order)

end

interpretation production_runner: runner_env "production_env vflags sys parse ord" for vflags sys parse ord
  by (simp add: runner_env_def production.reliable_env_axioms host_calls.volume_policy_axioms)

text \<open>
  A policy over a whole run: one of the volumes package that also admits every other single call,
  except that pulls must be with credentials \<open>pull_ok\<close> accepts for their image.
\<close>

locale run_policy = reliable_env env + volume_policy env ok for env :: "'w Env" and ok +
  fixes pull_ok :: "string \<Rightarrow> string \<Rightarrow> bool"
  assumes ok_other: "\<not> volume_call ev \<Longrightarrow> (case ev of CImagePull img a x \<Rightarrow> pull_ok img a | _ \<Rightarrow> True) \<Longrightarrow> ok [ev]"
begin

lemma ok_others:
  "\<forall>ev \<in> set evs. \<not> volume_call ev \<and> (case ev of CImagePull img a x \<Rightarrow> pull_ok img a | _ \<Rightarrow> True) \<Longrightarrow> ok evs"
proof (induction evs)
  case (Cons ev evs)
  then show ?case using ok_append [of "[ev]" evs] ok_other [of ev] by simp
qed (rule ok_Nil)

lemma keeps_docker:
  "pull_ok (ct_Image c) (base64EncodeAuth (authStruct auth)) \<Longrightarrow> keeps calls ok (pullImage client auth c)"
  "valid_order ord \<Longrightarrow> keeps calls ok (deleteOldContainers ord client raw)"
  "keeps calls ok (call_ContainerCreate client cfg hc name)"
  "keeps calls ok (call_ContainerStart client i)"
proof -
  show "pull_ok (ct_Image c) (base64EncodeAuth (authStruct auth)) \<Longrightarrow> keeps calls ok (pullImage client auth c)"
    by (rule keepsI [OF emits_pullImage], rule ok_others) (auto simp: pull_trace_def Let_def)
  show "valid_order ord \<Longrightarrow> keeps calls ok (deleteOldContainers ord client raw)"
    by (rule keepsI [OF emits_deleteOldContainers], assumption, rule ok_others)
      (auto simp: cleanup_trace_def dest!: script_entries)
qed (rule keepsI [OF emits_create_start(1)] keepsI [OF emits_create_start(2)], rule ok_others, simp)+

lemma keeps_quiet:
  "keeps calls ok (generateRandomSuffix 4 :: ('w st, string) go)"
  "keeps calls ok (printWarningIfLikelyHasMistake command args :: ('w st, unit) go)"
  by (rule keeps_silent, simp add: silent_generateRandomSuffix)+

lemma keeps_RunContainer:
  assumes "valid_order (env_Order env)" and "cr_VolumesEnv runner = env"
    and "pull_ok (ct_Image (Containers spec ! 0)) (base64EncodeAuth (authStruct auth))"
  shows "keeps calls ok (RunContainer runner auth spec detach)"
  unfolding RunContainer_def createContainer_def finishCreation_def startContainer_def Let_def assms(2)
  by (auto intro!: keeps_rules keeps_log keeps_quiet keeps_docker(1) [OF assms(3)] keeps_docker(2) [OF assms(1)]
      keeps_docker(3,4) keeps_volumes keeps_Prepare split: option.split sum.split)

end

interpretation fs_run: run_policy "production_env vflags sys parse ord" "fs_guarded (production_env vflags sys parse ord)" "\<lambda>_ _. True"
  for vflags sys parse ord
proof -
  have "fs_guarded (production_env vflags sys parse ord) [ev]" if "\<not> volume_call ev" for ev
    using that by (intro guarded_uncritical) (auto simp: is_fs_tool_def)
  then show "run_policy (production_env vflags sys parse ord) (fs_guarded (production_env vflags sys parse ord)) (\<lambda>_ _. True)"
    by (simp add: run_policy_def run_policy_axioms_def production.reliable_env_axioms fs_policy.volume_policy_axioms)
qed

abbreviation konlet_runner :: "'w DockerApiClient \<Rightarrow> volume_flags \<Rightarrow> 'w Sys \<Rightarrow> (string \<Rightarrow> go_error + DiskEntry list) \<Rightarrow> map_order \<Rightarrow> 'w ContainerRunner" where
  "konlet_runner client vflags sys parse ord \<equiv> \<lparr>cr_Client = client, cr_VolumesEnv = production_env vflags sys parse ord\<rparr>"

section \<open>Properties\<close>

lemma draw_sconst: "draw bound (sconst 0) = Some (0, sconst 0)"
  by (subst draw.simps) (simp add: Int31_of_def)

text \<open>The machine where everything succeeds starts the container of the example.\<close>

lemma idle_create_start [idle_run]:
  "call_ContainerCreate idle_docker cfg hc name s = (Ok ''new'', ran [CContainerCreate cfg hc name (Ok ''new'')] [] [] s)"
  "call_ContainerStart idle_docker i s = (Ok (), ran [CContainerStart i (Ok ())] [] [] s)"
  by (simp_all add: call_ContainerCreate_def call_ContainerStart_def observe_def external_def idle_docker_def ran_def)

lemma idle_suffix: "succeeds (generateRandomSuffix 4) ''aaaa''"
proof (rule succeedsI)
  fix s :: "'a st" assume s: "rng s = sconst 0"
  have upt: "[0..<4] = [0, 1, 2, 3 :: nat]" by (simp add: upt_rec)
  have step: "append_letter g i s = (Ok (g @ ''a''), s)" for g i
    using s by (simp add: append_letter_run [of g i s] draw_sconst letters_def)
  show "\<exists>s'. generateRandomSuffix 4 s = (Ok ''aaaa'', s') \<and> rng s' = rng s"
    by (simp add: generateRandomSuffix_def upt handleE_def step)
qed

lemma idle_unmount: "succeeds (UnmountExistingVolumes idle_env) ()"
  by (rule succeedsI) (simp add: UnmountExistingVolumes_def existingMounts_def wrapToEnterHostMountNamespace_def run_defs idle_run)

lemma idle_docker_steps:
  "succeeds (pullImage idle_docker auth c) ()"
  "succeeds (deleteOldContainers (\<lambda>ks. ks) idle_docker raw) ()"
  "succeeds (call_ContainerCreate idle_docker cfg hc name) ''new''"
  "succeeds (call_ContainerStart idle_docker i) ()"
proof -
  show "succeeds (pullImage idle_docker auth c) ()"
    by (rule succeedsI) (use idle_pull [of auth c] in \<open>metis ran_simps(5)\<close>)
  show "succeeds (deleteOldContainers (\<lambda>ks. ks) idle_docker raw) ()"
    by (rule succeedsI) (use idle_cleanup [of raw] in \<open>metis ran_simps(5)\<close>)
qed (rule succeedsI, simp add: idle_run)+

abbreviation idle_konlet :: "unit ContainerRunner" where
  "idle_konlet \<equiv> konlet_runner idle_docker default_volume_flags idle_sys (Unmarshal_disks idle_errors) (\<lambda>ks. ks)"

lemma idle_RunContainer: "succeeds (RunContainer idle_konlet auth example_spec detach) ()"
proof -
  have one: "(length [example_container] \<noteq> 1) = False" "[example_container] ! 0 = example_container"
    and spec: "Containers example_spec = [example_container]" "spec_RestartPolicy example_spec = None"
    and con: "ct_Name example_container = ''c''" "ct_Command example_container = None" "ct_Args example_container = None"
    and order: "env_Order idle_env = (\<lambda>ks. ks)"
    by (simp_all add: example_spec_def example_container_def)
  have bound: "map_get [(''c'', example_binds)] ''c'' = Some example_binds" "restartPolicyName None = Inr ''always''"
    "contextError ctx_Err what = None" for what
    by (simp_all add: map_get_def restartPolicyName_def contextError_def ctx_Err_def)
  have warn: "succeeds (printWarningIfLikelyHasMistake None None) ()"
    unfolding printWarningIfLikelyHasMistake_def by (auto intro: succeeds_rules)
  show ?thesis
    unfolding RunContainer_def createContainer_def finishCreation_def startContainer_def spec one if_False Let_def con order ContainerRunner.select_convs
    by ((rule succeeds_rules idle_suffix idle_docker_steps warn idle_unmount idle_example)+,
      simp only: bound option.case sum.case, (rule succeeds_rules idle_docker_steps)+)
qed

text \<open>C9. Running a container, on any machine and any engine. A run that succeeds pulled the image, removed
  the old containers, tried to unmount leftover mounts, prepared the volumes, created one container
  from the declaration and the bindings of its mounts, under a name with four random letters, and then
  started exactly that one, last. A run that fails has started no container.\<close>

theorem RunContainer_trace:
  assumes "valid_order ord"
  shows "emits calls (RunContainer (konlet_runner client vflags sys parse ord) auth spec detach)
    (good_or_bad (\<lambda>_ evs. \<exists>i pre. creation (production_env vflags sys parse ord) auth spec i pre \<and> evs = pre @ [CContainerStart i (Ok ())])
       (\<lambda>evs. \<forall>i. CContainerStart i (Ok ()) \<notin> set evs))"
  using assms by (intro production_runner.emits_RunContainer) simp_all

theorem RunContainer_trace_witness:
  "\<exists>i pre s'. RunContainer idle_konlet ''t'' example_spec True idle_state = (Ok (), s')
     \<and> creation idle_env ''t'' example_spec i pre \<and> calls s' = pre @ [CContainerStart i (Ok ())]"
proof -
  obtain s' where run: "RunContainer idle_konlet ''t'' example_spec True idle_state = (Ok (), s')"
    using succeeds_idle [OF idle_RunContainer] by blast
  from emitsE [OF RunContainer_trace [OF valid_order_id] run] show ?thesis
    unfolding run good_or_bad_simps by (simp add: idle_state_def) blast
qed

lemma handleE_Ok_iff: "handleE m (\<lambda>e. throwE (h e)) k s = (Ok v, s') \<longleftrightarrow> (\<exists>u t. m s = (Ok u, t) \<and> k u t = (Ok v, s'))"
  by (cases "m s"; cases "fst (m s)") (auto simp: handleE_def)

lemma Prepare_restart_policy:
  "PrepareVolumesAndGetBindings env (spec\<lparr>spec_RestartPolicy := p\<rparr>) = PrepareVolumesAndGetBindings env spec"
proof -
  have "Containers (spec\<lparr>spec_RestartPolicy := p\<rparr>) = Containers spec" "Volumes (spec\<lparr>spec_RestartPolicy := p\<rparr>) = Volumes spec"
    by simp_all
  then show ?thesis
    unfolding PrepareVolumesAndGetBindings_def countReferences_def init_references_def by (simp only:)
qed

text \<open>A creation that succeeded got as far as it did whatever the restart policy is.\<close>

lemma createContainer_prefix:
  assumes "createContainer runner auth spec s = (Ok i, t)"
  obtains suf b t' where "\<And>p. createContainer runner auth (spec\<lparr>spec_RestartPolicy := p\<rparr>) s =
    finishCreation (cr_Client runner) (Containers spec ! 0) b p (generatedName (ct_Name (Containers spec ! 0)) suf) t'"
proof (cases "length (Containers spec) \<noteq> 1")
  case True
  then show ?thesis using assms unfolding createContainer_def if_P [OF True] by simp
next
  case False
  have same: "Containers (spec\<lparr>spec_RestartPolicy := p\<rparr>) = Containers spec" "spec_RestartPolicy (spec\<lparr>spec_RestartPolicy := p\<rparr>) = p" for p
    by simp_all
  from assms obtain suf b t' where "createContainer runner auth (spec\<lparr>spec_RestartPolicy := p\<rparr>) s =
    finishCreation (cr_Client runner) (Containers spec ! 0) b p (generatedName (ct_Name (Containers spec ! 0)) suf) t'" for p
    unfolding createContainer_def same if_not_P [OF False] Let_def bindE_def seqE_def handleE_Ok_iff [where h = "\<lambda>e. e"]
      Prepare_restart_policy
    by (elim exE conjE) (simp only: handleE_def prod.case outcome.case)
  then show thesis by (rule that)
qed

text \<open>C17. An unsupported restart policy is noticed only after everything else is done: where a declaration
  with a supported policy would run, the same declaration with an unsupported one has made the same
  calls, pull, removal of old containers, formatting and mounts included, and then fails instead of
  creating and starting the container.\<close>

theorem restart_policy_checked_late:
  assumes "RunContainer runner auth spec detach s = (Ok (), s1)" and "restartPolicyName (Some p) = Inl err"
  shows "\<exists>s2 cfg hc name i. RunContainer runner auth (spec\<lparr>spec_RestartPolicy := Some p\<rparr>) detach s = (Err err, s2)
     \<and> calls s1 = calls s2 @ [CContainerCreate cfg hc name (Ok i), CContainerStart i (Ok ())]"
proof -
  from assms(1) obtain i t where create: "createContainer runner auth spec s = (Ok i, t)"
    and start: "startContainer (cr_Client runner) i t = (Ok (), s1)"
    unfolding RunContainer_def bindE_def handleE_Ok_iff [where h = "\<lambda>e. e"] by blast
  have started: "calls s1 = calls t @ [CContainerStart i (Ok ())]"
    using start by (auto simp: startContainer_def seqE_def handleE_def log_Printf_def call_ContainerStart_def observe_def external_def
        split: prod.splits)
  let ?c = "Containers spec ! 0"
  obtain suf b t' where prefix: "\<And>p. createContainer runner auth (spec\<lparr>spec_RestartPolicy := p\<rparr>) s =
      finishCreation (cr_Client runner) ?c b p (generatedName (ct_Name ?c) suf) t'"
    by (rule createContainer_prefix [OF create]) blast
  have finish: "finishCreation (cr_Client runner) ?c b (spec_RestartPolicy spec) (generatedName (ct_Name ?c) suf) t' = (Ok i, t)"
    using prefix [of "spec_RestartPolicy spec"] create by simp
  obtain binds where binds: "map_get b (ct_Name ?c) = Some binds"
    using finish by (cases "map_get b (ct_Name ?c)") (simp_all add: finishCreation_def)
  obtain policy where policy: "restartPolicyName (spec_RestartPolicy spec) = Inr policy"
    using finish binds by (cases "restartPolicyName (spec_RestartPolicy spec)") (simp_all add: finishCreation_def)
  have created: "calls t = calls t' @ [CContainerCreate (docker_config ?c) (host_config ?c binds policy) (generatedName (ct_Name ?c) suf) (Ok i)]"
    using finish binds policy
    by (auto simp: finishCreation_def contextError_def ctx_Err_def seqE_def handleE_def log_Printf_def call_ContainerCreate_def
        observe_def external_def split: prod.splits outcome.splits)
  have "RunContainer runner auth (spec\<lparr>spec_RestartPolicy := Some p\<rparr>) detach s = (Err err, t')"
    unfolding RunContainer_def bindE_def handleE_def prefix
    using binds assms(2) by (simp add: finishCreation_def)
  with started created show ?thesis by auto
qed

theorem restart_policy_checked_late_witness:
  "\<exists>err s1 s2 cfg hc name i. RunContainer idle_konlet ''t'' example_spec True idle_state = (Ok (), s1)
     \<and> RunContainer idle_konlet ''t'' (example_spec\<lparr>spec_RestartPolicy := Some ''Sometimes''\<rparr>) True idle_state = (Err err, s2)
     \<and> calls s1 = calls s2 @ [CContainerCreate cfg hc name (Ok i), CContainerStart i (Ok ())]"
proof -
  obtain s1 where run: "RunContainer idle_konlet ''t'' example_spec True idle_state = (Ok (), s1)"
    using succeeds_idle [OF idle_RunContainer] by blast
  obtain err where "restartPolicyName (Some ''Sometimes'') = Inl err"
    by (simp add: restartPolicyName_def RestartPolicyAlways_def RestartPolicyOnFailure_def RestartPolicyNever_def)
  from restart_policy_checked_late [OF run this] run show ?thesis by blast
qed



text \<open>C28. A binding is written as Docker reads it: the two paths and, for a read-only binding, the option
  \<open>ro\<close>, separated by colons, as long as no path contains one.\<close>

theorem hostPathBind_roundtrip:
  assumes "CHR '':'' \<notin> set (bc_HostPath b)" and "CHR '':'' \<notin> set (bc_ContainerPath b)"
  shows "Split (hostPathBind b) (CHR '':'') = [bc_HostPath b, bc_ContainerPath b] @ (if bc_ReadOnly b then [''ro''] else [])"
proof -
  have "hostPathBind b = Join ([bc_HostPath b, bc_ContainerPath b] @ (if bc_ReadOnly b then [''ro''] else [])) '':''"
    by (simp add: hostPathBind_def Let_def)
  then show ?thesis
    using assms by (simp only:) (rule Split_Join, auto)
qed

theorem hostPathBind_roundtrip_witness:
  "Split (hostPathBind \<lparr>bc_HostPath = ''/mnt/a'', bc_ContainerPath = ''/b'', bc_ReadOnly = True\<rparr>) (CHR '':'') = [''/mnt/a'', ''/b'', ''ro'']"
  using hostPathBind_roundtrip [of "\<lparr>bc_HostPath = ''/mnt/a'', bc_ContainerPath = ''/b'', bc_ReadOnly = True\<rparr>"] by simp

end
