(* ===== verification/Flags.thy ===== *)
theory Flags
  imports Mounts
begin

text \<open>
  The command line: the flags of \<open>gce-containers-startup.go\<close> and \<open>volumes/volumes.go\<close>,
  and the parser of Go's package \<open>flag\<close> over them. The flag set stops the process itself when the
  arguments are wrong (status 2) or ask for help (status 0).
\<close>

record Flags =
  tokenFlag :: string
  runDetachedFlag :: bool
  showWelcomeFlag :: bool
  openIptables :: bool
  volumesFlags :: volume_flags

definition default_flags :: Flags where
  "default_flags = \<lparr>tokenFlag = '''', runDetachedFlag = True, showWelcomeFlag = True, openIptables = True,
     volumesFlags = default_volume_flags\<rparr>"

fun set_bool_flag :: "string \<Rightarrow> (bool \<Rightarrow> Flags \<Rightarrow> Flags) option" where
  "set_bool_flag name =
     (if name = ''detached'' then Some (\<lambda>b fl. fl\<lparr>runDetachedFlag := b\<rparr>)
      else if name = ''show-welcome'' then Some (\<lambda>b fl. fl\<lparr>showWelcomeFlag := b\<rparr>)
      else if name = ''open-iptables'' then Some (\<lambda>b fl. fl\<lparr>openIptables := b\<rparr>)
      else None)"

fun set_string_flag :: "string \<Rightarrow> (string \<Rightarrow> Flags \<Rightarrow> Flags) option" where
  "set_string_flag name =
     (if name = ''token'' then Some (\<lambda>v fl. fl\<lparr>tokenFlag := v\<rparr>)
      else if name = ''mounted-volumes-path-prefix''
        then Some (\<lambda>v fl. fl\<lparr>volumesFlags := (volumesFlags fl)\<lparr>mountedVolumesPathPrefixFlag := v\<rparr>\<rparr>)
      else if name = ''host-proc-path''
        then Some (\<lambda>v fl. fl\<lparr>volumesFlags := (volumesFlags fl)\<lparr>hostProcPathFlag := v\<rparr>\<rparr>)
      else None)"

definition ParseBool :: "string \<Rightarrow> bool option" where
  "ParseBool s =
     (if s \<in> {''1'', ''t'', ''T'', ''TRUE'', ''true'', ''True''} then Some True
      else if s \<in> {''0'', ''f'', ''F'', ''FALSE'', ''false'', ''False''} then Some False
      else None)"

text \<open>\<open>name=value\<close>, cut at the first equals sign.\<close>

definition cut_equals :: "string \<Rightarrow> string \<times> string option" where
  "cut_equals s =
     (let name = takeWhile (\<lambda>c. c \<noteq> CHR ''='') s
      in (name, if CHR ''='' \<in> set s then Some (drop (Suc (length name)) s) else None))"

fun flag_Parse :: "string list \<Rightarrow> Flags \<Rightarrow> int + Flags" where
  "flag_Parse [] fl = Inr fl"
| "flag_Parse (s # args) fl =
     (if length s < 2 \<or> s ! 0 \<noteq> CHR ''-'' \<or> s = ''--'' then Inr fl
      else let name = (if s ! 1 = CHR ''-'' then drop 2 s else drop 1 s)
      in if name = [] \<or> name ! 0 = CHR ''-'' \<or> name ! 0 = CHR ''='' then Inl 2
      else let (name, val) = cut_equals name
      in case set_bool_flag name of
           Some put \<Rightarrow>
             (case (case val of None \<Rightarrow> Some True | Some v \<Rightarrow> ParseBool v) of
                None \<Rightarrow> Inl 2
              | Some b \<Rightarrow> flag_Parse args (put b fl))
         | None \<Rightarrow>
             (case set_string_flag name of
                Some put \<Rightarrow>
                  (case val of
                     Some v \<Rightarrow> flag_Parse args (put v fl)
                   | None \<Rightarrow> (case args of [] \<Rightarrow> Inl 2 | v # rest \<Rightarrow> flag_Parse rest (put v fl)))
              | None \<Rightarrow> Inl (if name = ''help'' \<or> name = ''h'' then 0 else 2)))"

declare flag_Parse.simps(2) [simp del] set_bool_flag.simps [simp del] set_string_flag.simps [simp del]

section \<open>Properties\<close>

text \<open>The command line that sets every flag.\<close>

definition fmt_t :: "bool \<Rightarrow> string" where
  "fmt_t b = (if b then ''true'' else ''false'')"

definition render_flags :: "Flags \<Rightarrow> string list" where
  "render_flags fl =
     [''-token='' @ tokenFlag fl, ''-detached='' @ fmt_t (runDetachedFlag fl),
      ''-show-welcome='' @ fmt_t (showWelcomeFlag fl), ''-open-iptables='' @ fmt_t (openIptables fl),
      ''-mounted-volumes-path-prefix='' @ mountedVolumesPathPrefixFlag (volumesFlags fl),
      ''-host-proc-path='' @ hostProcPathFlag (volumesFlags fl)]"

lemma cut_equals_value: "CHR ''='' \<notin> set name \<Longrightarrow> cut_equals (name @ CHR ''='' # v) = (name, Some v)"
  by (simp add: cut_equals_def takeWhile_append)

lemma cut_equals_bare: "CHR ''='' \<notin> set name \<Longrightarrow> cut_equals name = (name, None)"
  by (auto simp: cut_equals_def takeWhile_eq_all_conv)

text \<open>One argument \<open>-name=value\<close>.\<close>

lemma parse_one:
  assumes "CHR ''='' \<notin> set name" and "name \<noteq> []" and "hd name \<noteq> CHR ''-''"
  shows "set_bool_flag name = Some putb \<Longrightarrow> ParseBool v = Some b
      \<Longrightarrow> flag_Parse ((CHR ''-'' # name @ CHR ''='' # v) # args) fl = flag_Parse args (putb b fl)"
    and "set_bool_flag name = None \<Longrightarrow> set_string_flag name = Some puts
      \<Longrightarrow> flag_Parse ((CHR ''-'' # name @ CHR ''='' # v) # args) fl = flag_Parse args (puts v fl)"
proof -
  obtain c cs where name: "name = c # cs" "c \<noteq> CHR ''-''" "c \<noteq> CHR ''=''"
    using assms by (cases name) auto
  note cut = cut_equals_value [OF assms(1), of v, unfolded name append_Cons]
  show "set_bool_flag name = Some putb \<Longrightarrow> ParseBool v = Some b
      \<Longrightarrow> flag_Parse ((CHR ''-'' # name @ CHR ''='' # v) # args) fl = flag_Parse args (putb b fl)"
    using name cut by (simp add: flag_Parse.simps(2))
  show "set_bool_flag name = None \<Longrightarrow> set_string_flag name = Some puts
      \<Longrightarrow> flag_Parse ((CHR ''-'' # name @ CHR ''='' # v) # args) fl = flag_Parse args (puts v fl)"
    using name cut by (simp add: flag_Parse.simps(2))
qed

lemma ParseBool_fmt_t [simp]: "ParseBool (fmt_t b) = Some b"
  by (simp add: ParseBool_def fmt_t_def)

text \<open>C26. The command line that spells out every flag is read back as those flags, whatever the flags
  were before and whatever follows: no value, not even one with dashes or equals signs, is mistaken for
  something else.\<close>

theorem flag_Parse_roundtrip: "flag_Parse (render_flags fl @ rest) fl0 = flag_Parse rest fl"
proof -
  note bools = parse_one(1) [where name = "''detached''"] parse_one(1) [where name = "''show-welcome''"]
    parse_one(1) [where name = "''open-iptables''"]
  note strings = parse_one(2) [where name = "''token''"] parse_one(2) [where name = "''mounted-volumes-path-prefix''"]
    parse_one(2) [where name = "''host-proc-path''"]
  have all: "fl0\<lparr>tokenFlag := tokenFlag fl, runDetachedFlag := runDetachedFlag fl, showWelcomeFlag := showWelcomeFlag fl,
      openIptables := openIptables fl, volumesFlags := volumesFlags fl0\<lparr>mountedVolumesPathPrefixFlag :=
        mountedVolumesPathPrefixFlag (volumesFlags fl), hostProcPathFlag := hostProcPathFlag (volumesFlags fl)\<rparr>\<rparr> = fl"
    by (auto intro!: Flags.equality volume_flags.equality)
  show ?thesis
    unfolding render_flags_def
    by (simp add: bools [simplified] strings [simplified] set_bool_flag.simps set_string_flag.simps, simp only: all)
qed

end
