(* ===== verification/Registry.thy ===== *)
theory Registry
  imports Go_Strings
begin

text \<open>
  \<open>utils/registry.go\<close>: which images are pulled with a GCP token. The answer depends only on
  the registry, the part of the image before the first slash.
\<close>

definition UseGcpTokenForImage :: "(nat \<Rightarrow> nat) \<Rightarrow> string \<Rightarrow> bool" where
  "UseGcpTokenForImage lower_table img =
     (let parts = SplitN2 img (CHR ''/'')
      in if length parts < 2 \<or> length (parts ! 0) = 0 then False
         else let hostname = ToLower lower_table (parts ! 0)
              in hostname = ''gcr.io'' \<or> HasSuffix hostname ''.gcr.io'' \<or> HasSuffix hostname ''.pkg.dev'')"

definition google_registry :: "string \<Rightarrow> bool" where
  "google_registry h \<longleftrightarrow> h = ''gcr.io'' \<or> (\<exists>sub. h = sub @ ''.gcr.io'') \<or> (\<exists>sub. h = sub @ ''.pkg.dev'')"

lemma ToLower_Nil [simp]: "ToLower t [] = []"
  by (simp add: ToLower_def is_ascii_def)

lemma google_registry_nonempty: "\<not> google_registry []"
  by (simp add: google_registry_def)

lemma UseGcpTokenForImage_host:
  assumes "CHR ''/'' \<notin> set host"
  shows "UseGcpTokenForImage t (host @ CHR ''/'' # rest) \<longleftrightarrow> google_registry (ToLower t host)"
proof (cases "host = []")
  case True
  then show ?thesis
    using SplitN2_eq [OF assms] by (simp add: UseGcpTokenForImage_def google_registry_nonempty)
next
  case False
  then show ?thesis
    using SplitN2_eq [OF assms] by (simp add: UseGcpTokenForImage_def google_registry_def HasSuffix_iff Let_def)
qed

lemma UseGcpTokenForImage_no_host: "CHR ''/'' \<notin> set img \<Longrightarrow> \<not> UseGcpTokenForImage t img"
  by (simp add: UseGcpTokenForImage_def SplitN2_def)

section \<open>Properties\<close>

text \<open>C19. The token is used for an image exactly if the image has a slash and its registry, the part
  before the first slash in lower case, is \<open>gcr.io\<close> or ends in \<open>.gcr.io\<close> or
  \<open>.pkg.dev\<close>: no such name further down the path, and no longer domain that only starts with
  one, gets it.\<close>

theorem token_for_google_registries:
  "UseGcpTokenForImage t img \<longleftrightarrow>
     (\<exists>host rest. img = host @ CHR ''/'' # rest \<and> CHR ''/'' \<notin> set host \<and> google_registry (ToLower t host))"
proof (cases "CHR ''/'' \<in> set img")
  case True
  then obtain h r where hr: "img = h @ CHR ''/'' # r" "CHR ''/'' \<notin> set h"
    using split_at_first [OF True] by auto
  have "host = h" if "img = host @ CHR ''/'' # rest" "CHR ''/'' \<notin> set host" for host rest
    using SplitN2_eq [OF that(2), of rest] SplitN2_eq [OF hr(2), of r] that(1) hr(1) by simp
  then have "(\<exists>host rest. img = host @ CHR ''/'' # rest \<and> CHR ''/'' \<notin> set host \<and> google_registry (ToLower t host))
      \<longleftrightarrow> google_registry (ToLower t h)"
    using hr by metis
  then show ?thesis
    using UseGcpTokenForImage_host [OF hr(2), of t r] hr(1) by simp
qed (auto simp: UseGcpTokenForImage_no_host)

lemma in_range_lower: "\<not> in_range 65 90 (lower_ascii c)"
  by (cases "in_range 65 90 c") (auto simp: lower_ascii_def in_range_def)

lemma lower_ascii_idem: "lower_ascii (lower_ascii c) = lower_ascii c"
  using in_range_lower [of c] by (simp add: lower_ascii_def [of "lower_ascii c"])

lemma lower_ascii_plain: "lower_ascii c = CHR ''/'' \<longleftrightarrow> c = CHR ''/''"
  "(of_char c :: nat) < 128 \<Longrightarrow> (of_char (lower_ascii c) :: nat) < 128"
proof -
  show "lower_ascii c = CHR ''/'' \<longleftrightarrow> c = CHR ''/''"
  proof
    assume l: "lower_ascii c = CHR ''/''"
    show "c = CHR ''/''"
    proof (cases "in_range 65 90 c")
      case True
      then have "(of_char (lower_ascii c) :: nat) \<ge> 97" by (simp add: lower_ascii_def in_range_def)
      with l show ?thesis by simp
    qed (use l in \<open>simp add: lower_ascii_def\<close>)
  qed (simp add: lower_ascii_def in_range_def)
  show "(of_char c :: nat) < 128 \<Longrightarrow> (of_char (lower_ascii c) :: nat) < 128"
    by (cases "in_range 65 90 c") (auto simp: lower_ascii_def in_range_def)
qed

text \<open>C37. The answer ignores the case of an ASCII registry: its lower-case spelling is treated the
  same, whatever follows the slash.\<close>

theorem registry_case_insensitive:
  assumes "is_ascii host" and "CHR ''/'' \<notin> set host"
  shows "UseGcpTokenForImage t (map lower_ascii host @ CHR ''/'' # rest) =
    UseGcpTokenForImage t (host @ CHR ''/'' # rest')"
proof -
  have ascii: "is_ascii (map lower_ascii host)"
    using assms(1) by (auto simp: is_ascii_def lower_ascii_plain)
  have "CHR ''/'' \<notin> set (map lower_ascii host)"
    using assms(2) lower_ascii_plain(1) by (metis (no_types) image_iff list.set_map)
  then show ?thesis
    using assms ascii by (simp add: UseGcpTokenForImage_host ToLower_ascii lower_ascii_idem comp_def)
qed

theorem registry_case_insensitive_witness:
  "UseGcpTokenForImage (\<lambda>r. r) ''eu.gcr.io/p/i'' = UseGcpTokenForImage (\<lambda>r. r) ''EU.GCR.io/q''"
proof -
  have lower: "map lower_ascii ''EU.GCR.io'' = ''eu.gcr.io''" by code_simp
  have "UseGcpTokenForImage (\<lambda>r. r) (map lower_ascii ''EU.GCR.io'' @ CHR ''/'' # ''p/i'') =
      UseGcpTokenForImage (\<lambda>r. r) (''EU.GCR.io'' @ CHR ''/'' # ''q'')"
    by (rule registry_case_insensitive) (simp_all add: is_ascii_def)
  then show ?thesis unfolding lower by simp
qed

end
