(* ===== verification/Auth.thy ===== *)
theory Auth
  imports Metadata Json
begin

text \<open>
  \<open>utils/auth.go\<close>: the two sources of the registry token. The service-account provider asks
  the metadata server and decodes the JSON of its answer. The constant provider answers
  with the token of the command line.
\<close>

definition AUTH_METADATA :: string where
  "AUTH_METADATA = ''http://metadata.google.internal/computeMetadata/v1/instance/service-accounts/default/token''"

record Token =
  tok_AccessToken :: string
  tok_ExpiresIn :: int
  tok_TokenType :: string

text \<open>
  The tags of the struct name the members. \<open>json.Unmarshal\<close> starts from the zero struct. The
  program runs with this decoder; the client below takes any.
\<close>

definition token_fields :: "string list" where
  "token_fields = [''access_token'', ''expires_in'', ''token_type'']"

definition store_token :: "json_errors \<Rightarrow> string \<Rightarrow> json \<Rightarrow> Token \<Rightarrow> go_error + Token" where
  "store_token errs field v tok =
     (if field = ''access_token'' then map_sum id (\<lambda>s. tok\<lparr>tok_AccessToken := s\<rparr>) (store_string errs field v (tok_AccessToken tok))
      else if field = ''expires_in'' then map_sum id (\<lambda>i. tok\<lparr>tok_ExpiresIn := i\<rparr>) (store_int errs field v (tok_ExpiresIn tok))
      else map_sum id (\<lambda>s. tok\<lparr>tok_TokenType := s\<rparr>) (store_string errs field v (tok_TokenType tok)))"

definition Unmarshal_token :: "json_errors \<Rightarrow> string \<Rightarrow> go_error + Token" where
  "Unmarshal_token errs = Unmarshal errs
     (\<lambda>v. store_struct errs token_fields (store_token errs) v \<lparr>tok_AccessToken = [], tok_ExpiresIn = 0, tok_TokenType = []\<rparr>)"

text \<open>
  The error of \<open>http.NewRequest\<close> is not checked: without a request the next line reads a field
  of a nil pointer.
\<close>

definition serviceAccount_RetrieveAuthToken :: "'w Sys \<Rightarrow> (string \<Rightarrow> go_error + Token) \<Rightarrow> ('w st, string) go" where
  "serviceAccount_RetrieveAuthToken sys unmarshal =
     seqE (log_Printf ''Downloading credentials for default VM service account from metadata server'')
       (case sys_NewRequest sys ''GET'' AUTH_METADATA of
          Inl err \<Rightarrow> panicE NilDereference
        | Inr request \<Rightarrow>
            (let request = Header_Add ''Metadata-Flavor'' ''Google'' request
             in bindE (http_Do sys request) (\<lambda>resp.
                deferE
                  (if 400 \<le> resp_StatusCode resp
                   then throwE (ErrorString (''Metadata server responded with status '' @ fmt_d (resp_StatusCode resp)))
                   else bindE (io_ReadAll sys (resp_Body resp)) (\<lambda>body.
                     case unmarshal body of Inl err \<Rightarrow> throwE err | Inr res \<Rightarrow> returnE (tok_AccessToken res)))
                  (body_Close sys (resp_Body resp)))))"

definition serviceAccountTokenProvider :: "'w Sys \<Rightarrow> (string \<Rightarrow> go_error + Token) \<Rightarrow> 'w AuthProvider" where
  "serviceAccountTokenProvider sys unmarshal = \<lparr>RetrieveAuthToken = serviceAccount_RetrieveAuthToken sys unmarshal\<rparr>"

definition constantTokenProvider :: "string \<Rightarrow> 'w AuthProvider" where
  "constantTokenProvider token =
     \<lparr>RetrieveAuthToken = seqE (log_Printf ''Using user-provided credentials'') (returnE token)\<rparr>"

lemma silent_serviceAccount: "silent calls (serviceAccount_RetrieveAuthToken sys unmarshal)"
  unfolding serviceAccount_RetrieveAuthToken_def bindE_def
  by (auto intro!: silent_seq silent_handle silent_defer simp: Let_def split: sum.split)

interpretation service_account: auth_provider "serviceAccountTokenProvider sys unmarshal" for sys :: "'w Sys" and unmarshal
  by unfold_locales (simp add: serviceAccountTokenProvider_def silent_serviceAccount)

interpretation constant_token: auth_provider "constantTokenProvider token" for token
  by unfold_locales (auto simp: constantTokenProvider_def intro!: silent_seq)

text \<open>The answer of the server decoded.\<close>

definition token_of :: "(string \<Rightarrow> go_error + Token) \<Rightarrow> string \<Rightarrow> string outcome" where
  "token_of unmarshal body = of_sum (map_sum id tok_AccessToken (unmarshal body))"

lemma token_exchange:
  assumes "sys_NewRequest sys ''GET'' AUTH_METADATA = Inr request"
  shows "emits syscalls (serviceAccount_RetrieveAuthToken sys unmarshal)
    (\<lambda>evs r. \<exists>x. http_exchange (Header_Add ''Metadata-Flavor'' ''Google'' request) evs x \<and> r = then_decode x (token_of unmarshal))"
  unfolding serviceAccount_RetrieveAuthToken_def assms sum.case Let_def
proof (rule emits_seq_silent [OF silent_log_syscalls log_Printf_ok], rule exchange_pattern)
  show "(case unmarshal body of Inl err \<Rightarrow> throwE err | Inr res \<Rightarrow> returnE (tok_AccessToken res)) s = (token_of unmarshal body, s)"
    for body and s :: "'a st"
    by (cases "unmarshal body") (simp_all add: token_of_def)
  show "token_of unmarshal body \<noteq> Panic p" for body p
    by (simp add: token_of_def)
qed

lemma returns_serviceAccount:
  assumes "sys_NewRequest sys ''GET'' AUTH_METADATA = Inr request"
  shows "returns (serviceAccount_RetrieveAuthToken sys unmarshal)"
  unfolding serviceAccount_RetrieveAuthToken_def assms sum.case Let_def
  by (auto intro!: returns_intros split: sum.split)

section \<open>Properties\<close>



section \<open>The token in the answer\<close>

text \<open>The members of the answer, as the metadata server documents them.\<close>

definition oauth_members :: "string list" where
  "oauth_members = [''access_token'', ''expires_in'', ''token_type'']"

lemma token_fields_eq: "token_fields = oauth_members"
  by (simp add: token_fields_def oauth_members_def)

definition access_token :: "(string \<times> json) list \<Rightarrow> string" where
  "access_token ms = last_string oauth_members ''access_token'' ms"

text \<open>The members for the fields have values of their types; the lifetime fits into 64 bits.\<close>

definition token_value :: "string \<Rightarrow> json \<Rightarrow> bool" where
  "token_value field v \<longleftrightarrow> (if field = ''expires_in''
     then (case v of JNumber x \<Rightarrow> parse_int64 x \<noteq> None | JNull \<Rightarrow> True | _ \<Rightarrow> False) else string_or_null v)"

definition describes_token :: "(string \<times> json) list \<Rightarrow> bool" where
  "describes_token ms \<longleftrightarrow> (\<forall>(k, v) \<in> set ms. case lookup_field oauth_members k of None \<Rightarrow> True | Some f \<Rightarrow> token_value f v)"

lemma Unmarshal_token_text:
  assumes "text_of (JObject ms) body" and "describes_token ms"
  shows "\<exists>tok. Unmarshal_token errs body = Inr tok \<and> tok_AccessToken tok = access_token ms"
proof -
  have "\<exists>tok. store_members oauth_members (store_token errs) ms \<lparr>tok_AccessToken = [], tok_ExpiresIn = 0, tok_TokenType = []\<rparr> = Inr tok
      \<and> (\<forall>g \<in> {''access_token''}. tok_AccessToken tok = last_string oauth_members g ms)"
    by (rule store_members_strings [where fit = token_value])
      (use assms(2) in \<open>auto simp: store_token_def store_string_ok store_int_def token_value_def describes_token_def token_fields_eq oauth_members_def split: json.splits\<close>)
  with parse_text_of [OF assms(1)] show ?thesis
    by (auto simp: Unmarshal_token_def Unmarshal_def store_struct_def access_token_def token_fields_eq)
qed


lemma token_tags:
  "lookup_field oauth_members ''access_token'' = Some ''access_token''" "lookup_field oauth_members ''expires_in'' = Some ''expires_in''"
  "lookup_field oauth_members ''token_type'' = Some ''token_type''" "lookup_field oauth_members ''scope'' = None"
  by (simp_all add: lookup_field_def oauth_members_def folded_ascii is_ascii_def fold_rune_def)


end
