(* ===== verification/Iptables.thy ===== *)
theory Iptables
  imports Effects Go_Strings
begin

text \<open>
  \<open>utils/iptables.go\<close>: the switch to the iptables version of the host, and the firewall rules
  that admit all traffic. Commands run directly through \<open>os/exec\<close>, each one entry
  \<open>CExec\<close> of the history.
\<close>

section \<open>Commands\<close>

definition combined_result :: "(string \<times> go_error option) outcome \<Rightarrow> string outcome" where
  "combined_result r = (case r of Ok (out, None) \<Rightarrow> Ok out | Ok (out, Some e) \<Rightarrow> Err e | Err e \<Rightarrow> Err e | Panic p \<Rightarrow> Panic p)"

definition exec_CombinedOutput :: "'w Sys \<Rightarrow> string list \<Rightarrow> ('w st, string \<times> go_error option) go" where
  "exec_CombinedOutput sys cmd = observe (\<lambda>r. CExec cmd (combined_result r)) (syscall (SExec cmd) Ok (sys_Exec sys cmd))"

definition os_Getenv :: "'w Sys \<Rightarrow> string \<Rightarrow> ('w st, string) go" where
  "os_Getenv sys name = (\<lambda>s. (Ok (sys_Getenv sys name (world s)), s))"

definition InitIpTables :: "'w Sys \<Rightarrow> ('w st, unit) go" where
  "InitIpTables sys =
     seqE (log_Printf ''Determining the iptables version'')
       (bindE (os_Getenv sys ''HOST_IPTABLES'') (\<lambda>iptables.
          if iptables = [] then throwE (ErrorString ''HOST_IPTABLES environment variable is not set - cannot determine the version to be used in konlet'')
          else if iptables = ''legacy'' then
            seqE (log_Printf ''Detected legacy iptables on the host OS. Switching to legacy iptables.'')
              (bindE (exec_CombinedOutput sys [''update-alternatives'', ''--set'', ''iptables'', ''/usr/sbin/iptables-legacy'']) (\<lambda>(output, err).
                 case err of Some e \<Rightarrow> throwE e | None \<Rightarrow> log_Printf (output @ [newline])))
          else log_Printf ''Detected nf_tables on the host OS. Staying on the nf_tables.''))"

text \<open>What the helper would write to the standard output; it is never called.\<close>

definition printOutput :: "string \<Rightarrow> string" where
  "printOutput outs = (if 0 < length outs then ''iptables command output: '' @ outs @ [newline] else [])"

definition OpenIptablesForProtocol :: "'w Sys \<Rightarrow> string \<Rightarrow> ('w st, unit) go" where
  "OpenIptablesForProtocol sys protocol =
     seqE (log_Printf (''Updating IPtables firewall rules - allowing '' @ protocol @ '' traffic on all ports''))
       (bindE (exec_CombinedOutput sys [''iptables'', ''-A'', ''INPUT'', ''-p'', protocol, ''-j'', ''ACCEPT'']) (\<lambda>(output, err).
          case err of Some e \<Rightarrow> throwE e
          | None \<Rightarrow> seqE (log_Printf (output @ [newline]))
              (bindE (exec_CombinedOutput sys [''iptables'', ''-A'', ''FORWARD'', ''-p'', protocol, ''-j'', ''ACCEPT'']) (\<lambda>(output, err).
                 seqE (log_Printf (output @ [newline]))
                   (case err of Some e \<Rightarrow> throwE e | None \<Rightarrow> returnE ())))))"

definition OpenIptables :: "'w Sys \<Rightarrow> ('w st, unit) go" where
  "OpenIptables sys =
     seqE (OpenIptablesForProtocol sys ''tcp'')
       (seqE (OpenIptablesForProtocol sys ''udp'')
         (seqE (OpenIptablesForProtocol sys ''icmp'') (returnE ())))"

section \<open>Scripts of commands\<close>

abbreviation exec_script :: "string list list \<Rightarrow> call list \<Rightarrow> unit outcome \<Rightarrow> bool" where
  "exec_script cmds \<equiv> script (map CExec cmds)"

text \<open>The entries of a script of commands.\<close>

lemma exec_entries: "exec_script cmds evs r \<Longrightarrow> ev \<in> set evs \<Longrightarrow> \<exists>cmd x. ev = CExec cmd x"
  and exec_entries1: "script [CExec cmd] evs r \<Longrightarrow> ev \<in> set evs \<Longrightarrow> \<exists>cmd x. ev = CExec cmd x"
  by (drule (1) script_entries, auto)+

lemma emits_CombinedOutput:
  "emits calls (exec_CombinedOutput sys cmd) (\<lambda>evs r. \<exists>out err. r = Ok (out, err) \<and> evs = [CExec cmd (combined_result r)])"
  by (rule emitsI) (simp add: exec_CombinedOutput_def observe_def syscall_def external_def split: prod.split)

lemma emits_exec:
  assumes "\<And>out. emits calls (k (out, None)) (script cs)"
    and "\<And>out e. emits calls (k (out, Some e)) (\<lambda>evs r. evs = [] \<and> r = Err e)"
  shows "emits calls (bindE (exec_CombinedOutput sys cmd) k) (script (CExec cmd # cs))"
  unfolding bindE_def
proof (rule emits_handle [OF emits_CombinedOutput], goal_cases)
  case (1 v evs0)
  then obtain out err where v: "v = (out, err)" and evs0: "evs0 = [CExec cmd (combined_result (Ok (out, err)))]"
    by (cases v) simp
  show ?case
  proof (cases err)
    case None
    with evs0 show ?thesis
      unfolding v None by (intro emits_weaken [OF assms(1)]) (simp add: combined_result_def script_simps)
  next
    case (Some e)
    with evs0 show ?thesis
      unfolding v Some by (intro emits_weaken [OF assms(2)]) (simp add: combined_result_def script_simps)
  qed
qed auto

text \<open>The rules of one protocol, and the whole script.\<close>

definition protocol_rules :: "string \<Rightarrow> string list list" where
  "protocol_rules protocol = map (\<lambda>chain. [''iptables'', ''-A'', chain, ''-p'', protocol, ''-j'', ''ACCEPT'']) [''INPUT'', ''FORWARD'']"

lemma emits_OpenIptablesForProtocol:
  "emits calls (OpenIptablesForProtocol sys protocol) (exec_script (protocol_rules protocol))"
proof -
  have fine: "emits calls (seqE (log_Printf msg) (returnE ())) (exec_script [])" for msg
    by (simp add: emits_log emits_return script_simps)
  have bad: "emits calls (seqE (log_Printf msg) (throwE e)) (\<lambda>evs r. evs = [] \<and> r = Err e)" for msg e
    by (simp add: emits_log emits_throw)
  show ?thesis
    unfolding OpenIptablesForProtocol_def protocol_rules_def list.map
  proof (intro emits_log emits_exec, goal_cases)
    case (1 out)
    show ?case
      unfolding prod.case option.case
    proof (intro emits_log emits_exec, goal_cases)
      case (1 out)
      show ?case using fine by simp
    next
      case (2 out e)
      show ?case using bad by simp
    qed
  next
    case (2 out e)
    show ?case by (simp add: emits_throw)
  qed
qed

definition firewall_script :: "string list list" where
  "firewall_script = concat (map protocol_rules [''tcp'', ''udp'', ''icmp''])"

lemma length_firewall_script: "length firewall_script = 6"
  by (simp add: firewall_script_def protocol_rules_def)

lemma emits_OpenIptables: "emits calls (OpenIptables sys) (exec_script firewall_script)"
proof -
  have "emits calls (returnE ()) (exec_script [])" by (simp add: emits_return script_simps)
  then show ?thesis
    unfolding OpenIptables_def firewall_script_def list.map concat.simps map_append
    by (intro script_seq emits_OpenIptablesForProtocol)
qed

lemma returns_iptables [returns_intros]: "returns (InitIpTables sys)" "returns (OpenIptables sys)"
proof -
  have exec: "returns (exec_CombinedOutput sys cmd)" for cmd
    unfolding exec_CombinedOutput_def by (intro returns_observe returns_syscall) simp
  have env: "returns (os_Getenv sys name)" for name
    by (simp add: returns_def os_Getenv_def)
  show "returns (InitIpTables sys)"
    unfolding InitIpTables_def by (auto intro!: returns_intros exec env split: option.split)
  show "returns (OpenIptables sys)"
    unfolding OpenIptables_def OpenIptablesForProtocol_def by (auto intro!: returns_intros exec split: option.split)
qed

definition legacy_switch :: "string list" where
  "legacy_switch = [''update-alternatives'', ''--set'', ''iptables'', ''/usr/sbin/iptables-legacy'']"

lemma InitIpTables_run:
  "\<exists>evs. calls (snd (InitIpTables sys s)) = calls s @ evs \<and>
     (let host = sys_Getenv sys ''HOST_IPTABLES'' (world s) in
      if host = ''legacy'' then exec_script [legacy_switch] evs (fst (InitIpTables sys s))
      else evs = [] \<and> (fst (InitIpTables sys s) = Ok () \<longleftrightarrow> host \<noteq> []))"
proof (cases "sys_Getenv sys ''HOST_IPTABLES'' (world s) = ''legacy''")
  case True
  obtain out err w where "sys_Exec sys legacy_switch (world s) = ((out, err), w)" by (metis prod.collapse)
  with True show ?thesis
    unfolding InitIpTables_def legacy_switch_def [symmetric]
    by (cases err) (simp_all add: seqE_def bindE_def handleE_def log_Printf_def os_Getenv_def exec_CombinedOutput_def
        observe_def syscall_def external_def combined_result_def script_simps)
next
  case False
  then show ?thesis
    unfolding InitIpTables_def
    by (simp add: seqE_def bindE_def handleE_def log_Printf_def os_Getenv_def)
qed

text \<open>The initialisation as a specification that does not name the world.\<close>

lemma emits_InitIpTables:
  "emits calls (InitIpTables sys) (\<lambda>evs r. exec_script [legacy_switch] evs r \<or> evs = [] \<and> (\<forall>p. r \<noteq> Panic p))"
proof (rule emitsI)
  fix s :: "'a st"
  have "\<forall>p. fst (InitIpTables sys s) \<noteq> Panic p"
    using returns_iptables(1) [of sys] by (simp add: returns_def)
  with InitIpTables_run [of sys s]
  show "\<exists>evs. calls (snd (InitIpTables sys s)) = calls s @ evs \<and> (exec_script [legacy_switch] evs (fst (InitIpTables sys s))
      \<or> evs = [] \<and> (\<forall>p. fst (InitIpTables sys s) \<noteq> Panic p))"
    by (auto simp: Let_def split: if_splits)
qed

section \<open>Properties\<close>

text \<open>C30. Opening the firewall appends one ACCEPT rule to INPUT and one to FORWARD for each of tcp,
  udp and icmp, in this order, as direct commands; it stops at the first command that fails and returns
  its error, so that it succeeds only if all six rules were added.\<close>

theorem OpenIptables_script:
  "emits calls (OpenIptables sys) (\<lambda>evs r. exec_script firewall_script evs r \<and>
     (if r = Ok () then \<exists>outs. length outs = 6 \<and> evs = map2 (\<lambda>c out. CExec c (Ok out)) firewall_script outs else True))"
  by (rule emits_weaken [OF emits_OpenIptables])
    (auto dest!: script_all simp: length_firewall_script zip_map1 comp_def split_def)

text \<open>C31. The initialisation runs at most one command: on a host that says \<open>legacy\<close> the
  switch, whose error it returns; on a host that says nothing it fails without a command, on any other
  it does nothing.\<close>

theorem InitIpTables_by_host:
  "\<exists>evs. calls (snd (InitIpTables sys s)) = calls s @ evs \<and>
     (let host = sys_Getenv sys ''HOST_IPTABLES'' (world s) in
      if host = ''legacy'' then exec_script [legacy_switch] evs (fst (InitIpTables sys s))
      else evs = [] \<and> (fst (InitIpTables sys s) = Ok () \<longleftrightarrow> host \<noteq> []))"
  by (rule InitIpTables_run)

end
