(* ===== verification/Welcome.thy ===== *)
theory Welcome
  imports Effects Go_Strings
begin

text \<open>
  \<open>utils/welcome-message.go\<close>: the script shown to users who log in to the host, chosen by
  whether the startup failed, and its file.
\<close>

definition echo_line :: "string \<Rightarrow> string \<Rightarrow> string" where
  "echo_line colour txt = ''echo -e '' @ [CHR 0x22, backslash] @ ''033[0;'' @ colour @ ''m'' @ txt
     @ [backslash] @ ''033[0m'' @ [CHR 0x22, newline]"

definition quoted :: "string \<Rightarrow> string" where
  "quoted s = CHR 0x27 # s @ [CHR 0x27]"

definition WELCOME_SCRIPT_ON_SUCCESS :: string where
  "WELCOME_SCRIPT_ON_SUCCESS = ''#!/bin/bash'' @ [newline] @ concat (map (echo_line ''33'')
     [''  ########################[ Welcome ]########################'',
      ''  #  You have logged in to the guest OS.                    #'',
      ''  #  To access your containers use '' @ quoted ''docker attach'' @ '' command  #'',
      ''  ###########################################################'',
      ''                                                             ''])"

definition WELCOME_SCRIPT_ON_FAILURE :: string where
  "WELCOME_SCRIPT_ON_FAILURE = ''#!/bin/bash'' @ [newline] @ concat (map (echo_line ''31'')
     [''  #########################[ Error ]#########################'',
      ''  #  The startup agent encountered errors. Your container   #'',
      ''  #  was not started. To inspect the agent'' @ [CHR 0x27] @ ''s logs use       #'',
      ''  #  '' @ quoted ''sudo journalctl -u konlet-startup'' @ '' command.           #'',
      ''  ###########################################################'',
      ''                                                             ''])"

definition SCRIPT_PATH :: string where
  "SCRIPT_PATH = ''/host/etc/profile.d/gce-containers-welcome.sh''"

definition selectScriptBasedOnStartupResult :: "'p option \<Rightarrow> string" where
  "selectScriptBasedOnStartupResult startupErr =
     (if startupErr = None then WELCOME_SCRIPT_ON_SUCCESS else WELCOME_SCRIPT_ON_FAILURE)"

text \<open>
  The interfaces \<open>FileWriterInterface\<close> and \<open>LoggerInterface\<close>, and their real
  implementations.
\<close>

record 'w FileWriter =
  WriteFile :: "string \<Rightarrow> string \<Rightarrow> nat \<Rightarrow> ('w st, unit) go"

record 'w Logger =
  Print :: "string \<Rightarrow> ('w st, unit) go"

definition realFileWriter :: "'w Sys \<Rightarrow> 'w FileWriter" where
  "realFileWriter sys = \<lparr>WriteFile = (\<lambda>filename data perm. external of_err (sys_WriteFile sys filename data perm))\<rparr>"

definition realLogger :: "'w Logger" where
  "realLogger = \<lparr>Print = log_Printf\<rparr>"

definition saveScriptToFile :: "string \<Rightarrow> 'w FileWriter \<Rightarrow> 'w Logger \<Rightarrow> ('w st, unit) go" where
  "saveScriptToFile scriptText fileWriter logger =
     handleE (observe (CWriteFile SCRIPT_PATH scriptText 493) (WriteFile fileWriter SCRIPT_PATH scriptText 493))
       (\<lambda>writeErr. seqE (Print logger ''Failed to save welcome script to profile.d'') (throwE writeErr))
       (\<lambda>_. seqE (Print logger ''Saving welcome script to profile.d'') (returnE ()))"

definition WriteWelcomeScript :: "'w Sys \<Rightarrow> 'p option \<Rightarrow> ('w st, unit) go" where
  "WriteWelcomeScript sys startupErr =
     (let scriptText = selectScriptBasedOnStartupResult startupErr
      in saveScriptToFile scriptText (realFileWriter sys) realLogger)"

section \<open>Writing through any writer\<close>

text \<open>A file writer and a logger that do not call back into the core and do not panic.\<close>

locale script_output =
  fixes fw :: "'w FileWriter" and lg :: "'w Logger"
  assumes Write_silent: "silent calls (WriteFile fw name data perm)"
    and Write_returns: "returns (WriteFile fw name data perm)"
    and Print_silent: "silent calls (Print lg msg)"
    and Print_ok: "is_ok (fst (Print lg msg s))"
begin

lemma emits_print: "emits calls k S \<Longrightarrow> emits calls (seqE (Print lg msg) k) S"
  by (rule emits_seq_silent) (auto intro: Print_silent Print_ok)

lemma emits_save: "emits calls (saveScriptToFile scriptText fw lg) (\<lambda>evs r. evs = [CWriteFile SCRIPT_PATH scriptText 493 r])"
  unfolding saveScriptToFile_def
proof (rule emits_handle [OF emits_observe [OF Write_silent]])
  show "emits calls (seqE (Print lg msg) (returnE ())) (\<lambda>evs r. evs0 @ evs = [CWriteFile SCRIPT_PATH scriptText 493 r])"
    if "evs0 = [CWriteFile SCRIPT_PATH scriptText 493 (Ok v)]" for v evs0 msg
    using that by (intro emits_print emits_return) simp
  show "emits calls (seqE (Print lg msg) (throwE e)) (\<lambda>evs r. evs0 @ evs = [CWriteFile SCRIPT_PATH scriptText 493 r])"
    if "evs0 = [CWriteFile SCRIPT_PATH scriptText 493 (Err e)]" for e evs0 msg
    using that by (intro emits_print emits_throw) simp
qed

lemma returns_save: "returns (saveScriptToFile scriptText fw lg)"
proof -
  have "returns (Print lg msg)" for msg
    unfolding returns_def using Print_ok by (metis is_ok_simps(3))
  then show ?thesis
    unfolding saveScriptToFile_def by (intro returns_intros Write_returns)
qed

end

interpretation real_output: script_output "realFileWriter sys" realLogger for sys :: "'w Sys"
  by unfold_locales (simp_all add: realFileWriter_def realLogger_def returns_external)

lemma emits_WriteWelcomeScript:
  "emits calls (WriteWelcomeScript sys startupErr)
     (\<lambda>evs r. evs = [CWriteFile SCRIPT_PATH (selectScriptBasedOnStartupResult startupErr) 493 r])"
  unfolding WriteWelcomeScript_def Let_def by (rule real_output.emits_save)

lemma returns_WriteWelcomeScript [returns_intros]: "returns (WriteWelcomeScript sys startupErr)"
  unfolding WriteWelcomeScript_def Let_def by (rule real_output.returns_save)

end
