(* ===== verification/Startup.thy ===== *)
theory Startup
  imports Runtime Flags Registry Auth Iptables Welcome
begin

text \<open>
  \<open>gce-containers-startup.go\<close>: the startup itself, and the main program around it, from the command
  line to the exit status.
\<close>

section \<open>The startup\<close>

text \<open>
  The code outside the repository and the Unicode tables: the Docker client's constructor, the seeded
  source of random numbers, the YAML decoder, the texts of the JSON errors, the lower-case table of \<open>strings.ToLower\<close>
  beyond ASCII and the order in which \<open>range\<close> visits a map.
\<close>

record 'w Libraries =
  lib_Sys :: "'w Sys"
  lib_NewClient :: "string \<Rightarrow> go_error + 'w DockerApiClient"
  lib_NewSource :: "64 word \<Rightarrow> 63 word stream"
  lib_Declaration :: "string \<Rightarrow> go_error + ContainerSpec"
  lib_Json :: json_errors
  lib_LowerTable :: "nat \<Rightarrow> nat"
  lib_Order :: map_order

text \<open>The registry token, or the empty string for an image of another registry.\<close>

definition retrieve_auth :: "(nat \<Rightarrow> nat) \<Rightarrow> 'w AuthProvider \<Rightarrow> string \<Rightarrow> ('w st, string) go" where
  "retrieve_auth lower authProvider img =
     (if UseGcpTokenForImage lower img
      then handleE (call_Token authProvider)
             (\<lambda>err. throwE (ErrorString (''Cannot get auth token: '' @ Error err))) returnE
      else seqE (log_Printf ''Non-GCR registry used - Konlet will use empty auth'') (returnE []))"

definition open_firewall :: "'w Sys \<Rightarrow> bool \<Rightarrow> ('w st, unit) go" where
  "open_firewall sys enabled =
     (if enabled
      then seqE (handleE (InitIpTables sys) (\<lambda>err. throwE (ErrorString (''Cannot init IPtables: '' @ Error err))) returnE)
                (handleE (OpenIptables sys) (\<lambda>err. throwE (ErrorString (''Cannot update IPtables: '' @ Error err))) returnE)
      else returnE ())"

text \<open>The startup once the declaration is parsed.\<close>

definition launch :: "'w Libraries \<Rightarrow> bool \<Rightarrow> 'w AuthProvider \<Rightarrow> 'w ContainerRunner \<Rightarrow> bool \<Rightarrow> ContainerSpecStruct
    \<Rightarrow> ('w st, unit) go" where
  "launch lib detached authProvider runner openIpt spec =
     (if length (Containers spec) \<noteq> 1
      then throwE (ErrorString (''Container declaration should include exactly 1 container, ''
             @ fmt_d (int (length (Containers spec))) @ '' found''))
      else bindE (retrieve_auth (lib_LowerTable lib) authProvider (ct_Image (Containers spec ! 0))) (\<lambda>auth.
        seqE (open_firewall (lib_Sys lib) openIpt)
          (seqE (log_Printf (''Launching user container '' @ quoted (ct_Image (Containers spec ! 0))))
            (handleE (RunContainer runner auth spec detached)
              (\<lambda>err. throwE (ErrorString (''Failed to start container: '' @ Error err)))
              (\<lambda>_. returnE ())))))"

text \<open>\<open>detached\<close> is the flag of that name, which the code reads where it calls \<open>RunContainer\<close>.\<close>

definition ExecStartup :: "'w Libraries \<Rightarrow> bool \<Rightarrow> 'w Provider \<Rightarrow> 'w AuthProvider \<Rightarrow> 'w ContainerRunner \<Rightarrow> bool
    \<Rightarrow> ('w st, unit) go" where
  "ExecStartup lib detached metadataProvider authProvider runner openIpt =
     handleE (call_Manifest metadataProvider)
       (\<lambda>err. throwE (ErrorString (''Cannot load container declaration: '' @ Error err)))
       (\<lambda>body.
          case lib_Declaration lib body of
            Inl err \<Rightarrow> throwE (ErrorString (''Cannot parse container declaration '' @ quoted body @ '': '' @ Error err))
          | Inr decl \<Rightarrow> launch lib detached authProvider runner openIpt (Spec decl))"

section \<open>The main program\<close>

text \<open>A constant the program does not use.\<close>

definition METADATA_SERVER :: string where
  "METADATA_SERVER = ''http://metadata.google.internal/computeMetadata/v1/instance/attributes/gce-container-declaration''"

definition log_Panicf :: "string \<Rightarrow> ('w st, 'a) go" where
  "log_Panicf msg = seqE (log_Printf msg) (panicE (PanicMessage msg))"

definition choose_auth :: "'w Libraries \<Rightarrow> Flags \<Rightarrow> 'w AuthProvider" where
  "choose_auth lib fl =
     (if tokenFlag fl = [] then serviceAccountTokenProvider (lib_Sys lib) (Unmarshal_token (lib_Json lib))
      else constantTokenProvider (tokenFlag fl))"

definition default_runner :: "'w Libraries \<Rightarrow> Flags \<Rightarrow> ('w st, 'w ContainerRunner) go" where
  "default_runner lib fl =
     GetDefaultRunner (lib_Sys lib) (lib_NewClient lib) (lib_NewSource lib) (volumesFlags fl) (Unmarshal_disks (lib_Json lib)) (lib_Order lib)
       (commandRunner (lib_Sys lib)) (defaultProvider (lib_Sys lib))"

text \<open>\<open>main\<close> after \<open>flag.Parse\<close>, up to the deferred call.\<close>

definition main_body :: "'w Libraries \<Rightarrow> Flags \<Rightarrow> ('w st, unit) go" where
  "main_body lib fl =
     (let metadataProvider = defaultProvider (lib_Sys lib); authProvider = choose_auth lib fl
      in handleE (default_runner lib fl)
           (\<lambda>err. log_Panicf (''Failed to initialize Konlet: '' @ Error err))
           (\<lambda>runner. handleE (ExecStartup lib (runDetachedFlag fl) metadataProvider authProvider runner (openIptables fl))
              (\<lambda>err. log_Panicf (''Error: '' @ Error err))
              returnE))"

text \<open>
  How the process ends: by an exit status, the 2 of the Go runtime included when the main goroutine is
  ended by \<open>Goexit\<close>, or not at all.
\<close>

datatype process_end = Exited int | NeverEnds

text \<open>\<open>recover\<close> sees a panic, and only a panic.\<close>

fun recovered :: "'a outcome \<Rightarrow> go_panic option" where
  "recovered (Panic (PanicMessage m)) = Some (PanicMessage m)"
| "recovered (Panic NilDereference) = Some NilDereference"
| "recovered _ = None"

definition exitHandler :: "'w Libraries \<Rightarrow> Flags \<Rightarrow> 'a outcome \<Rightarrow> 'w st \<Rightarrow> process_end \<times> 'w st" where
  "exitHandler lib fl r s =
     (let err = recovered r;
          s' = (if showWelcomeFlag fl then snd (WriteWelcomeScript (lib_Sys lib) err s) else s)
      in (if err \<noteq> None then Exited 1 else (case r of Panic _ \<Rightarrow> Exited 2 | _ \<Rightarrow> Exited 0), s'))"

definition main :: "'w Libraries \<Rightarrow> string list \<Rightarrow> 'w st \<Rightarrow> process_end \<times> 'w st" where
  "main lib args s =
     (case log_Printf ''Starting Konlet container startup agent'' s of (_, s1) \<Rightarrow>
      (case flag_Parse args default_flags of
         Inl status \<Rightarrow> (Exited status, s1)
       | Inr fl \<Rightarrow>
           (case main_body lib fl s1 of (r, s2) \<Rightarrow>
              if r = Panic Diverges then (NeverEnds, s2) else exitHandler lib fl r s2)))"

section \<open>What a startup does\<close>

text \<open>
  The abstract startup, in order: read the declaration, fetch a token if the image is in a Google
  registry, open the firewall if asked, create the container, start it.
\<close>

definition authorization :: "(nat \<Rightarrow> nat) \<Rightarrow> string \<Rightarrow> string \<Rightarrow> call list \<Rightarrow> bool" where
  "authorization lower img auth evs \<longleftrightarrow>
     (if UseGcpTokenForImage lower img then evs = [CToken (Ok auth)] else evs = [] \<and> auth = [])"

definition firewall_opened :: "bool \<Rightarrow> call list \<Rightarrow> bool" where
  "firewall_opened enabled evs \<longleftrightarrow>
     (if enabled
      then \<exists>ini opened. (ini = [] \<or> exec_script [legacy_switch] ini (Ok ()))
             \<and> exec_script firewall_script opened (Ok ()) \<and> evs = ini @ opened
      else evs = [])"

definition launched :: "'w Libraries \<Rightarrow> bool \<Rightarrow> 'w Env \<Rightarrow> ContainerSpecStruct \<Rightarrow> call list \<Rightarrow> bool" where
  "launched lib openIpt env spec evs \<longleftrightarrow>
     (\<exists>c auth tok fw i pre.
        Containers spec = [c]
      \<and> authorization (lib_LowerTable lib) (ct_Image c) auth tok
      \<and> firewall_opened openIpt fw
      \<and> creation env auth spec i pre
      \<and> evs = tok @ fw @ pre @ [CContainerStart i (Ok ())])"

definition started :: "'w Libraries \<Rightarrow> bool \<Rightarrow> 'w Env \<Rightarrow> call list \<Rightarrow> bool" where
  "started lib openIpt env evs \<longleftrightarrow>
     (\<exists>body decl evs'. lib_Declaration lib body = Inr decl
      \<and> launched lib openIpt env (Spec decl) evs' \<and> evs = CManifest (Ok body) # evs')"

definition not_started :: "call list \<Rightarrow> bool" where
  "not_started evs \<longleftrightarrow> (\<forall>i. CContainerStart i (Ok ()) \<notin> set evs)"

lemma not_started_simps [simp]:
  "not_started []" "not_started (a @ b) \<longleftrightarrow> not_started a \<and> not_started b"
  "not_started (ev # b) \<longleftrightarrow> (\<forall>i. ev \<noteq> CContainerStart i (Ok ())) \<and> not_started b"
  by (auto simp: not_started_def)

lemma execs_not_started: "exec_script cmds evs r \<Longrightarrow> not_started evs" "script [CExec cmd] evs r \<Longrightarrow> not_started evs"
  by (auto simp: not_started_def dest: exec_entries exec_entries1)

lemma firewall_not_started: "firewall_opened enabled evs \<Longrightarrow> not_started evs"
  by (auto simp: firewall_opened_def intro: execs_not_started split: if_splits)

lemma authorization_not_started: "authorization lower img auth evs \<Longrightarrow> not_started evs"
  by (auto simp: authorization_def split: if_splits)

lemma emits_open_firewall:
  "emits calls (open_firewall sys enabled) (good_or_bad (\<lambda>_. firewall_opened enabled) not_started)"
proof (cases enabled)
  case True
  have ini: "emits calls (InitIpTables sys) (good_or_bad (\<lambda>_ evs. evs = [] \<or> exec_script [legacy_switch] evs (Ok ())) not_started)"
    by (rule emits_good_or_bad [OF emits_InitIpTables]) (auto intro: execs_not_started)
  have opened: "emits calls (OpenIptables sys) (good_or_bad (\<lambda>_ evs. exec_script firewall_script evs (Ok ())) not_started)"
    by (rule emits_good_or_bad [OF emits_OpenIptables]) (auto intro: execs_not_started)
  have pass: "emits calls (handleE m (\<lambda>e. throwE (h e)) returnE) (good_or_bad good not_started)"
    if "emits calls m (good_or_bad good not_started)" for m :: "('a st, unit) go" and h good
    by (rule emits_then [OF that]) (auto intro: emits_return)
  have "emits calls (open_firewall sys True) (\<lambda>evs. good_or_bad (\<lambda>_. firewall_opened True) not_started ([] @ evs))"
    unfolding open_firewall_def if_True
  proof (rule emits_seq_next [OF pass [OF ini]], goal_cases)
    case (1 u ini)
    show ?case
      by (rule emits_weaken [OF pass [OF opened]])
        (use 1 in \<open>auto simp: good_or_bad_def firewall_opened_def intro: execs_not_started split: outcome.splits\<close>)
  qed simp
  with True show ?thesis by simp
next
  case False
  then show ?thesis unfolding open_firewall_def by (simp add: emits_return firewall_opened_def)
qed

text \<open>The startup over any environment and any providers.\<close>

locale agent = runner_env env + manifests: metadata_provider p + tokens: auth_provider a
  for env :: "'w Env" and p :: "'w Provider" and a :: "'w AuthProvider"
begin

lemma emits_retrieve_auth:
  "emits calls (retrieve_auth lower a img) (good_or_bad (authorization lower img) not_started)"
proof (cases "UseGcpTokenForImage lower img")
  case True
  have "emits calls (call_Token a) (good_or_bad (\<lambda>auth evs. evs = [CToken (Ok auth)]) not_started)"
    by (rule emits_good_or_bad [OF tokens.emits_Token]) auto
  then show ?thesis
    unfolding retrieve_auth_def if_P [OF True]
    by (rule emits_then) (auto intro!: emits_return simp: authorization_def True)
next
  case False
  then show ?thesis
    unfolding retrieve_auth_def if_not_P [OF False] by (intro emits_log emits_return) (simp add: authorization_def)
qed

lemma emits_launch:
  assumes "valid_order (env_Order env)" and "cr_VolumesEnv runner = env"
  shows "emits calls (launch lib detached a runner openIpt spec) (good_or_bad (\<lambda>_. launched lib openIpt env spec) not_started)"
proof (cases "\<exists>c. Containers spec = [c]")
  case False
  then have many: "length (Containers spec) \<noteq> 1" by (auto simp: length_Suc_conv)
  show ?thesis unfolding launch_def if_P [OF many] by (rule emits_throw) simp
next
  case True
  then obtain c where c: "Containers spec = [c]" by blast
  have one: "(length [c] \<noteq> 1) = False" "[c] ! 0 = c" by simp_all
  have "emits calls (launch lib detached a runner openIpt spec)
      (\<lambda>evs. good_or_bad (\<lambda>_. launched lib openIpt env spec) not_started ([] @ evs))"
    unfolding launch_def c one if_False bindE_def
  proof (rule emits_then_next [OF emits_retrieve_auth], goal_cases)
    case (1 auth tok)
    note tok = this
    show ?case
    proof (rule emits_seq_next [OF emits_open_firewall], goal_cases)
      case (1 u fw)
      note quiet = authorization_not_started [OF tok] firewall_not_started [OF 1]
      show ?case
      proof (rule emits_log, rule emits_then_next [OF emits_RunContainer [OF assms]], goal_cases)
        case (1 u run)
        then obtain i pre where "creation env auth spec i pre" "run = pre @ [CContainerStart i (Ok ())]" by blast
        with tok \<open>firewall_opened openIpt fw\<close> c show ?case
          by (intro emits_return) (simp, unfold launched_def, blast)
      next
        case (2 run)
        then show ?case using quiet by (simp add: not_started_def)
      qed
    qed (use authorization_not_started [OF tok] in simp)
  qed simp
  then show ?thesis by simp
qed

lemma emits_ExecStartup:
  assumes "valid_order (env_Order env)" and "cr_VolumesEnv runner = env"
  shows "emits calls (ExecStartup lib detached p a runner openIpt) (good_or_bad (\<lambda>_. started lib openIpt env) not_started)"
proof -
  have manifest: "emits calls (call_Manifest p) (good_or_bad (\<lambda>body evs. evs = [CManifest (Ok body)]) not_started)"
    by (rule emits_good_or_bad [OF manifests.emits_Manifest]) auto
  show ?thesis
    unfolding ExecStartup_def
  proof (rule emits_then [OF manifest])
    fix body evs0
    assume m: "evs0 = [CManifest (Ok body)]"
    show "emits calls (case lib_Declaration lib body of
        Inl err \<Rightarrow> throwE (ErrorString (''Cannot parse container declaration '' @ quoted body @ '': '' @ Error err))
      | Inr decl \<Rightarrow> launch lib detached a runner openIpt (Spec decl))
      (\<lambda>evs. good_or_bad (\<lambda>_. started lib openIpt env) not_started (evs0 @ evs))"
    proof (cases "lib_Declaration lib body")
      case (Inl e)
      then show ?thesis using m by (simp add: emits_throw)
    next
      case (Inr decl)
      show ?thesis
        unfolding Inr sum.case
        by (rule emits_weaken [OF emits_launch [OF assms]])
          (use Inr m in \<open>auto simp: good_or_bad_def started_def split: outcome.splits\<close>)
    qed
  qed
qed

text \<open>The phases.\<close>

lemma phased_parts:
  "phased Declaring Declaring (call_Manifest p)"
  "phased Authorizing Authorizing (retrieve_auth lower a img)"
  "phased Opening Opening (open_firewall sys enabled)"
proof -
  show "phased Declaring Declaring (call_Manifest p)"
    by (rule phased_emits [OF manifests.emits_Manifest], rule within_same) simp
  have "phased Authorizing Authorizing (call_Token a)"
    by (rule phased_emits [OF tokens.emits_Token], rule within_same) simp
  then show "phased Authorizing Authorizing (retrieve_auth lower a img)"
    unfolding retrieve_auth_def
    by (auto intro!: phased_log phased_basic phased_handle [where b = Authorizing and c = Authorizing])
  have execs: "within Opening Opening evs" if "exec_script cmds evs r" for cmds evs r
    by (rule within_same) (use exec_entries [OF that] in fastforce)
  have "phased Opening Opening (InitIpTables sys)"
    by (rule phased_emits [OF emits_InitIpTables]) (auto intro: execs execs [of "[legacy_switch]", simplified])
  moreover have "phased Opening Opening (OpenIptables sys)"
    by (rule phased_emits [OF emits_OpenIptables]) (rule execs)
  ultimately show "phased Opening Opening (open_firewall sys enabled)"
    unfolding open_firewall_def
    by (auto intro!: phased_basic phased_seq [where b = Opening and c = Opening]
        phased_handle [where b = Opening and c = Opening])
qed

lemma phased_launch:
  assumes "valid_order (env_Order env)" and "cr_VolumesEnv runner = env"
  shows "phased Authorizing Starting (launch lib detached a runner openIpt spec)"
proof (cases "length (Containers spec) \<noteq> 1")
  case True
  show ?thesis unfolding launch_def if_P [OF True] by (rule phased_silent) simp
next
  case False
  have run: "phased Pulling Starting (handleE (RunContainer runner auth spec detached)
      (\<lambda>err. throwE (ErrorString (''Failed to start container: '' @ Error err))) (\<lambda>_. returnE ()))" for auth
    by (rule phased_handle [OF phased_RunContainer [OF assms], where c = Starting])
      (auto intro: phased_silent simp: phase_order)
  show ?thesis
    unfolding launch_def if_not_P [OF False]
    by (rule phased_bind [OF phased_parts(2), where c = Opening], rule phased_seq [OF phased_parts(3), where c = Pulling],
        rule phased_log, rule run) (simp_all add: phase_order)
qed

lemma phased_ExecStartup:
  assumes "valid_order (env_Order env)" and "cr_VolumesEnv runner = env"
  shows "phased Declaring Starting (ExecStartup lib detached p a runner openIpt)"
  unfolding ExecStartup_def
  by (rule phased_handle [OF phased_parts(1), where c = Authorizing])
    (auto intro!: phased_basic phased_launch assms simp: phase_order split: sum.split)

end

text \<open>
  A policy over a whole startup, which accepts pulls of images in Google registries, and pulls without
  credentials.
\<close>

locale agent_policy = agent env p a + run_policy env ok pull_ok
  for env :: "'w Env" and p a ok pull_ok +
  fixes lower :: "nat \<Rightarrow> nat"
  assumes pull_google: "UseGcpTokenForImage lower img \<Longrightarrow> pull_ok img creds"
    and pull_anonymous: "pull_ok img (base64EncodeAuth (authStruct []))"
begin

lemma keeps_entries:
  "keeps calls ok (call_Manifest p)"
  "keeps calls ok (open_firewall sys enabled :: ('w st, unit) go)"
proof -
  show "keeps calls ok (call_Manifest p)"
    by (rule keepsI [OF manifests.emits_Manifest], rule ok_others) simp
  have "keeps calls ok (InitIpTables sys :: ('w st, unit) go)"
    by (rule keepsI [OF emits_InitIpTables], rule ok_others) (auto dest!: exec_entries exec_entries1)
  moreover have "keeps calls ok (OpenIptables sys :: ('w st, unit) go)"
    by (rule keepsI [OF emits_OpenIptables], rule ok_others) (auto dest!: exec_entries exec_entries1)
  ultimately show "keeps calls ok (open_firewall sys enabled :: ('w st, unit) go)"
    unfolding open_firewall_def by (auto intro!: keeps_rules)
qed

lemma keeps_launch:
  assumes "valid_order (env_Order env)" and "cr_VolumesEnv runner = env" and lower: "lib_LowerTable lib = lower"
  shows "keeps calls ok (launch lib detached a runner openIpt spec)"
proof (cases "length (Containers spec) \<noteq> 1")
  case True
  show ?thesis unfolding launch_def if_P [OF True] by (rule keeps_basic)
next
  case False
  let ?img = "ct_Image (Containers spec ! 0)"
  have auth: "emits calls (retrieve_auth lower a ?img) (good_or_bad (\<lambda>auth evs. ok evs
      \<and> pull_ok ?img (base64EncodeAuth (authStruct auth))) ok)"
  proof (cases "UseGcpTokenForImage lower ?img")
    case True
    have "emits calls (call_Token a) (good_or_bad (\<lambda>_. ok) ok)"
      by (rule emits_good_or_bad [OF tokens.emits_Token]) (auto intro: ok_other)
    then show ?thesis
      unfolding retrieve_auth_def if_P [OF True]
      by (rule emits_then) (auto intro!: emits_return pull_google True)
  next
    case False
    then show ?thesis
      unfolding retrieve_auth_def if_not_P [OF False] by (intro emits_log emits_return) (simp add: ok_Nil pull_anonymous)
  qed
  show ?thesis
    unfolding launch_def if_not_P [OF False] lower bindE_def keeps_def
  proof (rule emits_handle [OF auth], goal_cases)
    case (1 auth tok)
    then have "keeps calls ok (seqE (open_firewall (lib_Sys lib) openIpt)
          (seqE (log_Printf (''Launching user container '' @ quoted ?img))
            (handleE (RunContainer runner auth spec detached)
              (\<lambda>err. throwE (ErrorString (''Failed to start container: '' @ Error err)))
              (\<lambda>_. returnE ()))))"
      by (intro keeps_rules keeps_entries keeps_log keeps_RunContainer assms) simp
    then show ?case
      unfolding keeps_def by (rule emits_weaken) (use 1 in \<open>auto intro: ok_append\<close>)
  qed (auto intro: emits_throw)
qed

lemma keeps_ExecStartup:
  assumes "valid_order (env_Order env)" and "cr_VolumesEnv runner = env" and "lib_LowerTable lib = lower"
  shows "keeps calls ok (ExecStartup lib detached p a runner openIpt)"
  unfolding ExecStartup_def
  by (auto intro!: keeps_rules keeps_entries keeps_launch assms split: sum.split)

end

end
