(* ===== verification/Main_Program.thy ===== *)
theory Main_Program
  imports Startup
begin

text \<open>
  The whole program on any machine: what \<open>main\<close> does from the command line to the exit status,
  how it can end, and the policies it keeps.
\<close>

section \<open>The parts of the main program\<close>

lemma choose_auth_provider: "auth_provider (choose_auth lib fl)"
  unfolding choose_auth_def by (simp add: service_account.auth_provider_axioms constant_token.auth_provider_axioms)

abbreviation lib_env :: "'w Libraries \<Rightarrow> Flags \<Rightarrow> 'w Env" where
  "lib_env lib fl \<equiv> production_env (volumesFlags fl) (lib_Sys lib) (Unmarshal_disks (lib_Json lib)) (lib_Order lib)"

abbreviation lib_runner :: "'w Libraries \<Rightarrow> Flags \<Rightarrow> 'w DockerApiClient \<Rightarrow> 'w ContainerRunner" where
  "lib_runner lib fl client \<equiv> konlet_runner client (volumesFlags fl) (lib_Sys lib) (Unmarshal_disks (lib_Json lib)) (lib_Order lib)"

abbreviation lib_startup :: "'w Libraries \<Rightarrow> Flags \<Rightarrow> 'w DockerApiClient \<Rightarrow> ('w st, unit) go" where
  "lib_startup lib fl client \<equiv>
     ExecStartup lib (runDetachedFlag fl) (defaultProvider (lib_Sys lib)) (choose_auth lib fl) (lib_runner lib fl client) (openIptables fl)"

interpretation production_agent: agent "lib_env lib fl" "defaultProvider (lib_Sys lib)" "choose_auth lib fl" for lib fl
  by (simp add: agent_def production_runner.runner_env_axioms default_provider.metadata_provider_axioms choose_auth_provider)

interpretation fs_agent: agent_policy "lib_env lib fl" "defaultProvider (lib_Sys lib)" "choose_auth lib fl"
  "fs_guarded (lib_env lib fl)" "\<lambda>_ _. True" "lib_LowerTable lib" for lib fl
  by (simp add: agent_policy_def agent_policy_axioms_def production_agent.agent_axioms fs_run.run_policy_axioms)

text \<open>The policy of credentials: an image outside the Google registries is pulled without any.\<close>

definition anonymous_pull :: "(nat \<Rightarrow> nat) \<Rightarrow> string \<Rightarrow> string \<Rightarrow> bool" where
  "anonymous_pull lower img creds \<longleftrightarrow> UseGcpTokenForImage lower img \<or> creds = base64EncodeAuth (authStruct [])"

definition credentials_ok :: "(nat \<Rightarrow> nat) \<Rightarrow> call \<Rightarrow> bool" where
  "credentials_ok lower ev \<longleftrightarrow> (case ev of CImagePull img creds x \<Rightarrow> anonymous_pull lower img creds | _ \<Rightarrow> True)"

interpretation credentials_agent: agent_policy "lib_env lib fl" "defaultProvider (lib_Sys lib)" "choose_auth lib fl"
  "list_all (credentials_ok (lib_LowerTable lib))" "anonymous_pull (lib_LowerTable lib)" "lib_LowerTable lib" for lib fl
proof -
  let ?ok = "list_all (credentials_ok (lib_LowerTable lib))"
  have volume: "credentials_ok lower ev" if "volume_call ev" for lower ev
    using that by (cases ev) (simp_all add: credentials_ok_def)
  have "volume_policy (lib_env lib fl) ?ok"
  proof unfold_locales
    show "?ok evs" if "fs_attempt (lib_env lib fl) dev x evs" for dev x evs
      using that by (auto simp: fs_attempt_def credentials_ok_def)
  qed (simp_all add: volume)
  then show "agent_policy (lib_env lib fl) (defaultProvider (lib_Sys lib)) (choose_auth lib fl) ?ok
      (anonymous_pull (lib_LowerTable lib)) (lib_LowerTable lib)"
    by (simp add: agent_policy_def agent_policy_axioms_def production_agent.agent_axioms run_policy_def
        run_policy_axioms_def production.reliable_env_axioms anonymous_pull_def credentials_ok_def)
qed

section \<open>Initialisation\<close>

definition boot_calls :: "call list \<Rightarrow> bool" where
  "boot_calls evs \<longleftrightarrow> evs = [] \<or> (\<exists>x. evs = [CRun [''who'', ''-b''] x])"

lemma silent_boot: "silent calls (os_Hostname sys)" "silent calls (seed_rng numbers)"
  by (simp_all add: silent_def os_Hostname_def seed_rng_def)

lemma emits_default_runner:
  "emits calls (default_runner lib fl)
     (\<lambda>evs r. case r of Ok runner \<Rightarrow> \<exists>client boot. runner = lib_runner lib fl client \<and> evs = [CRun [''who'', ''-b''] (Ok boot)]
                | Err e \<Rightarrow> boot_calls evs | Panic p \<Rightarrow> False)"
  unfolding default_runner_def GetDefaultRunner_def bindE_def
proof (rule emits_handle [OF emits_returns [OF silent_lift_result [unfolded silent_emits] production.returns_lift_result]], goal_cases)
  case (1 client evs0)
  have "emits calls (os_Hostname (lib_Sys lib)) (\<lambda>evs r. evs = [] \<and> (\<forall>p. r \<noteq> Panic p))"
    by (rule emitsI) (simp add: os_Hostname_def)
  then show ?case
  proof (rule emits_handle, goal_cases)
    case (1 host evs1)
    have "emits calls (call_Run (commandRunner (lib_Sys lib)) [''who'', ''-b''])
        (\<lambda>evs r. evs = [CRun [''who'', ''-b''] r] \<and> (\<forall>p. r \<noteq> Panic p))"
      by (rule emits_returns [OF runner.emits_Run runner.calls_return(1)])
    then show ?case
    proof (rule emits_handle, goal_cases)
      case (1 boot evs2)
      show ?case
        by (rule emits_seq_silent [OF silent_boot(2)]) (use \<open>evs0 = [] \<and> _\<close> 1 \<open>evs1 = [] \<and> _\<close> in \<open>auto simp: seed_rng_def intro!: emits_return\<close>)
    qed (use \<open>evs0 = [] \<and> _\<close> 1 in \<open>auto simp: boot_calls_def intro!: emits_throw\<close>)
  qed (use 1 in \<open>auto simp: boot_calls_def intro!: emits_throw\<close>)
qed (auto simp: boot_calls_def intro!: emits_throw)

section \<open>The body of main\<close>

text \<open>What \<open>log.Panicf\<close> makes of an error.\<close>

definition panicked :: "string \<Rightarrow> 'a outcome \<Rightarrow> 'a outcome" where
  "panicked what r = (case r of Err e \<Rightarrow> Panic (PanicMessage (what @ Error e)) | _ \<Rightarrow> r)"

lemma emits_log_Panicf: "S [] (Panic (PanicMessage msg)) \<Longrightarrow> emits calls (log_Panicf msg) S"
  unfolding log_Panicf_def by (intro emits_log emits_panic)

text \<open>Every run of the body is an initialisation that failed, or one followed by a startup.\<close>

lemma emits_main_body:
  assumes "\<And>client. emits calls (lib_startup lib fl client) S"
  shows "emits calls (main_body lib fl)
     (\<lambda>evs r. boot_calls evs \<and> (\<exists>msg. r = Panic (PanicMessage msg))
        \<or> (\<exists>boot evs' r'. evs = CRun [''who'', ''-b''] (Ok boot) # evs' \<and> S evs' r' \<and> r = panicked ''Error: '' r'))"
  unfolding main_body_def Let_def
proof (rule emits_handle [OF emits_default_runner], goal_cases)
  case (1 runner evs0)
  then obtain client boot where runner: "runner = lib_runner lib fl client" and evs0: "evs0 = [CRun [''who'', ''-b''] (Ok boot)]"
    by auto
  show ?case
    unfolding runner
  proof (rule emits_handle [OF assms], goal_cases)
    case (1 v evs1)
    then show ?case using evs0 by (intro emits_return) (auto simp: panicked_def intro!: exI [of _ "Ok v"])
  next
    case (2 e evs1)
    then show ?case using evs0 by (intro emits_log_Panicf) (auto simp: panicked_def intro!: exI [of _ "Err e"])
  next
    case (3 evs1 p)
    then show ?case using evs0 by (auto simp: panicked_def intro!: exI [of _ "Panic p"])
  qed
qed (auto intro!: emits_log_Panicf)

section \<open>How the program can end\<close>

text \<open>
  The generator is read only to name the container: everything before leaves it alone. Reading it off
  the state as a log of one entry, this is silence.
\<close>

abbreviation keeps_rng :: "('w st, 'a) go \<Rightarrow> bool" where
  "keeps_rng m \<equiv> silent (\<lambda>s. [rng s]) m"

lemma keeps_rng_primitives [simp, intro]:
  "keeps_rng (external answer f)" "keeps_rng (syscall ev answer f)" "keeps_rng (log_Printf msg)"
  "keeps_rng (os_Getenv sys name)"
  by (simp_all add: silent_def external_def syscall_def log_Printf_def os_Getenv_def split: prod.split)

lemma keeps_rng_observe [intro]: "keeps_rng m \<Longrightarrow> keeps_rng (observe ev m)"
  by (simp add: silent_def observe_def split: prod.split) (metis snd_conv)

lemma keeps_rng_bind [intro]: "keeps_rng m \<Longrightarrow> (\<And>v. keeps_rng (k v)) \<Longrightarrow> keeps_rng (bindE m k)"
  unfolding bindE_def by auto

lemmas keeps_rng_rules = keeps_rng_primitives keeps_rng_observe keeps_rng_bind silent_handle silent_seq silent_defer
  silent_return silent_throw silent_panic

lemma keeps_rng_parts:
  "keeps_rng (call_Manifest (defaultProvider sys))"
  "keeps_rng (retrieve_auth lower (choose_auth lib fl) img)"
  "keeps_rng (open_firewall sys enabled)"
proof -
  show "keeps_rng (call_Manifest (defaultProvider sys))"
    unfolding call_Manifest_def defaultProvider_def Provider.select_convs queryMetadataServer_def Let_def
      http_Do_def io_ReadAll_def body_Close_def
    by (auto intro!: keeps_rng_rules split: sum.split)
  have "keeps_rng (call_Token (choose_auth lib fl))"
    unfolding call_Token_def choose_auth_def serviceAccountTokenProvider_def constantTokenProvider_def
      serviceAccount_RetrieveAuthToken_def Let_def http_Do_def io_ReadAll_def body_Close_def
    by (auto intro!: keeps_rng_rules split: sum.split)
  then show "keeps_rng (retrieve_auth lower (choose_auth lib fl) img)"
    unfolding retrieve_auth_def by (auto intro!: keeps_rng_rules)
  show "keeps_rng (open_firewall sys enabled)"
    unfolding open_firewall_def InitIpTables_def OpenIptables_def OpenIptablesForProtocol_def exec_CombinedOutput_def
    by (auto intro!: keeps_rng_rules split: option.split)
qed

text \<open>Panics of a composition come from its parts.\<close>

lemma handle_panic_cases:
  assumes "fst (handleE m h k s) = Panic p"
  shows "fst (m s) = Panic p \<or> (\<exists>v s'. m s = (Ok v, s') \<and> fst (k v s') = Panic p) \<or> (\<exists>e s'. m s = (Err e, s') \<and> fst (h e s') = Panic p)"
  using assms by (cases "m s"; cases "fst (m s)") (auto simp: handleE_def)

lemma keeps_rng_step: "keeps_rng m \<Longrightarrow> m s = (r, s') \<Longrightarrow> rng s' = rng s"
  using silentD [of "\<lambda>s. [rng s]" m s r s'] by simp

text \<open>The only panics of a startup: a request for the token that cannot be built, and a name that cannot be drawn.\<close>

lemma token_panics:
  assumes "fst (retrieve_auth lower (choose_auth lib fl) img s) = Panic p"
  shows "p = NilDereference"
proof (rule ccontr)
  assume p: "p \<noteq> NilDereference"
  have call: "fst (call_Token a t) = Panic p \<Longrightarrow> fst (RetrieveAuthToken a t) = Panic p" for a and t :: "'a st"
    by (simp add: call_Token_def observe_def split: prod.splits)
  have "fst (call_Token (choose_auth lib fl) t) \<noteq> Panic p" for t
  proof
    assume "fst (call_Token (choose_auth lib fl) t) = Panic p"
    then have run: "fst (RetrieveAuthToken (choose_auth lib fl) t) = Panic p" by (rule call)
    show False
    proof (cases "tokenFlag fl = []")
      case False
      then show False
        using run by (simp add: choose_auth_def constantTokenProvider_def seqE_def handleE_def log_Printf_def)
    next
      case True
      show False
      proof (cases "sys_NewRequest (lib_Sys lib) ''GET'' AUTH_METADATA")
        case (Inl e)
        then show False
          using run True p by (simp add: choose_auth_def serviceAccountTokenProvider_def serviceAccount_RetrieveAuthToken_def
              seqE_def handleE_def log_Printf_def)
      next
        case (Inr request)
        with run True returns_serviceAccount [OF Inr, of "Unmarshal_token (lib_Json lib)"] show False
          by (simp add: choose_auth_def serviceAccountTokenProvider_def returns_def)
      qed
    qed
  qed
  moreover have "fst (call_Token (choose_auth lib fl) s) = Panic p" if "UseGcpTokenForImage lower img"
    using assms that handle_panic_cases [of "call_Token (choose_auth lib fl)"] unfolding retrieve_auth_def by fastforce
  moreover have "UseGcpTokenForImage lower img"
    using assms by (rule contrapos_pp) (simp add: retrieve_auth_def seqE_def handleE_def log_Printf_def)
  ultimately show False by blast
qed

lemma firewall_returns: "returns (open_firewall sys enabled)"
  unfolding open_firewall_def by (auto intro!: returns_intros)

lemma launch_panics:
  assumes "fst (launch lib detached (choose_auth lib fl) (lib_runner lib fl client) openIpt spec s) = Panic p"
  shows "p = NilDereference \<or> p = Diverges \<and> \<not> fair (rng s)"
proof (cases "length (Containers spec) \<noteq> 1")
  case True
  then show ?thesis using assms by (simp add: launch_def)
next
  case False
  note unfold = launch_def if_not_P [OF False] bindE_def seqE_def
  show ?thesis
    using assms unfolding unfold
  proof (elim handle_panic_cases [elim_format] disjE exE conjE)
    assume "fst (retrieve_auth (lib_LowerTable lib) (choose_auth lib fl) (ct_Image (Containers spec ! 0)) s) = Panic p"
    then show ?thesis by (auto dest: token_panics)
  next
    fix auth u u' s1 s2 s3
    assume "retrieve_auth (lib_LowerTable lib) (choose_auth lib fl) (ct_Image (Containers spec ! 0)) s = (Ok auth, s1)"
    then have s1: "rng s1 = rng s" by (rule keeps_rng_step [OF keeps_rng_parts(2)])
    assume "open_firewall (lib_Sys lib) openIpt s1 = (Ok u, s2)"
    then have s2: "rng s2 = rng s1" by (rule keeps_rng_step [OF keeps_rng_parts(3)])
    assume "log_Printf (''Launching user container '' @ quoted (ct_Image (Containers spec ! 0))) s2 = (Ok u', s3)"
    then have s3: "rng s3 = rng s2" by (auto simp: log_Printf_def)
    assume "fst (RunContainer (lib_runner lib fl client) auth spec detached s3) = Panic p"
    then have "p = Diverges \<and> \<not> fair (rng s3)" by (rule production_runner.RunContainer_panics) simp
    then show ?thesis using s1 s2 s3 by simp
  qed (use firewall_returns [of "lib_Sys lib" openIpt] in \<open>auto simp: returns_def log_Printf_def\<close>)
qed

lemma startup_panics:
  assumes "fst (lib_startup lib fl client s) = Panic p"
  shows "p = NilDereference \<or> p = Diverges \<and> \<not> fair (rng s)"
  using assms unfolding ExecStartup_def
proof (elim handle_panic_cases [elim_format] disjE exE conjE)
  assume "fst (call_Manifest (defaultProvider (lib_Sys lib)) s) = Panic p"
  then show ?thesis using default_provider.calls_return(1) by (auto simp: returns_def)
next
  fix body s1
  assume "call_Manifest (defaultProvider (lib_Sys lib)) s = (Ok body, s1)"
  then have s1: "rng s1 = rng s" by (rule keeps_rng_step [OF keeps_rng_parts(1)])
  assume "fst ((case lib_Declaration lib body of
        Inl err \<Rightarrow> throwE (ErrorString (''Cannot parse container declaration '' @ quoted body @ '': '' @ Error err))
      | Inr decl \<Rightarrow> launch lib (runDetachedFlag fl) (choose_auth lib fl) (lib_runner lib fl client) (openIptables fl) (Spec decl)) s1) = Panic p"
  then obtain decl :: ContainerSpec where "fst (launch lib (runDetachedFlag fl) (choose_auth lib fl) (lib_runner lib fl client) (openIptables fl) (Spec decl) s1) = Panic p"
    by (auto split: sum.splits)
  then show ?thesis using launch_panics s1 by fastforce
qed simp

lemma default_runner_run:
  assumes "default_runner lib fl s = (Ok runner, s')"
  shows "(\<exists>client. runner = lib_runner lib fl client) \<and> (\<exists>h. rng s' = lib_NewSource lib h)"
proof
  show "\<exists>client. runner = lib_runner lib fl client"
    using emitsE [OF emits_default_runner assms] by auto
  show "\<exists>h. rng s' = lib_NewSource lib h"
    using assms
    by (auto simp: default_runner_def GetDefaultRunner_def bindE_def seqE_def handleE_def seed_rng_def
        split: prod.splits outcome.splits)
qed

lemma default_runner_no_panic: "fst (default_runner lib fl s) \<noteq> Panic p"
  using emits_default_runner [of lib fl, unfolded emits_def, rule_format, of s] by auto

lemma log_Panicf_run: "fst (log_Panicf msg s) = Panic (PanicMessage msg)"
  by (simp add: log_Panicf_def seqE_def handleE_def log_Printf_def)

text \<open>The outcomes of the body.\<close>

lemma main_body_no_error: "fst (main_body lib fl s) \<noteq> Err e"
proof -
  have tail: "fst (handleE m (\<lambda>err. log_Panicf (msg err)) returnE t) \<noteq> Err e" for m :: "('a st, unit) go" and msg t
    by (cases "m t"; cases "fst (m t)") (auto simp: handleE_def log_Panicf_run)
  have "fst (handleE m (\<lambda>err. log_Panicf (msg err)) k s) \<noteq> Err e" if "\<And>v t. fst (k v t) \<noteq> Err e"
    for m :: "('a st, 'b) go" and k :: "'b \<Rightarrow> ('a st, unit) go" and msg
    using that by (cases "m s"; cases "fst (m s)") (auto simp: handleE_def log_Panicf_run)
  from this [OF tail] show ?thesis unfolding main_body_def Let_def .
qed

lemma main_body_panics:
  assumes "fst (main_body lib fl s) = Panic p"
  shows "(\<exists>msg. p = PanicMessage msg) \<or> p = NilDereference \<or> p = Diverges \<and> (\<exists>h. \<not> fair (lib_NewSource lib h))"
  using assms unfolding main_body_def Let_def
proof (elim handle_panic_cases [elim_format] disjE exE conjE)
  assume "fst (default_runner lib fl s) = Panic p"
  then show ?thesis by (simp add: default_runner_no_panic)
next
  fix runner s1
  assume "default_runner lib fl s = (Ok runner, s1)"
  from default_runner_run [OF this] obtain client h where "runner = lib_runner lib fl client" "rng s1 = lib_NewSource lib h" by blast
  moreover assume "fst (ExecStartup lib (runDetachedFlag fl) (defaultProvider (lib_Sys lib)) (choose_auth lib fl) runner (openIptables fl) s1) = Panic p"
  ultimately show ?thesis using startup_panics by metis
qed (auto simp: log_Panicf_run)

section \<open>The process\<close>

lemma emits_welcome_run:
  "\<exists>x. calls (snd (WriteWelcomeScript sys err s)) = calls s @ [CWriteFile SCRIPT_PATH (selectScriptBasedOnStartupResult err) 493 x]"
  using emitsE [OF emits_WriteWelcomeScript] by (metis prod.collapse)

definition welcome_calls :: "Flags \<Rightarrow> string \<Rightarrow> call list \<Rightarrow> bool" where
  "welcome_calls fl content evs \<longleftrightarrow>
     (if showWelcomeFlag fl then \<exists>x. evs = [CWriteFile SCRIPT_PATH content 493 x] else evs = [])"

lemma exitHandler_calls:
  "\<exists>evs. calls (snd (exitHandler lib fl r s)) = calls s @ evs
     \<and> welcome_calls fl (if recovered r = None then WELCOME_SCRIPT_ON_SUCCESS else WELCOME_SCRIPT_ON_FAILURE) evs"
  using emits_welcome_run [of "lib_Sys lib" "recovered r" s]
  by (auto simp: exitHandler_def Let_def welcome_calls_def selectScriptBasedOnStartupResult_def)

text \<open>The ends of the program, with the outcome of the body behind each.\<close>

definition greeted :: "'w st \<Rightarrow> 'w st" where
  "greeted s = s\<lparr>logs := logs s @ [''Starting Konlet container startup agent'']\<rparr>"

lemma greeted_calls [simp]: "calls (greeted s) = calls s"
  by (simp add: greeted_def)

lemma main_run:
  "main lib args s = (case flag_Parse args default_flags of
     Inl status \<Rightarrow> (Exited status, greeted s)
   | Inr fl \<Rightarrow> (case main_body lib fl (greeted s) of (r, s1) \<Rightarrow>
       if r = Panic Diverges then (NeverEnds, s1) else exitHandler lib fl r s1))"
  unfolding main_def log_Printf_def greeted_def by simp

lemma exitHandler_exit: "recovered r \<noteq> None \<Longrightarrow> fst (exitHandler lib fl r s) = Exited 1"
  by (simp add: exitHandler_def Let_def)

inductive ended :: "'w Libraries \<Rightarrow> Flags \<Rightarrow> unit outcome \<Rightarrow> 'w st \<Rightarrow> process_end \<Rightarrow> 'w st \<Rightarrow> bool"
  for lib :: "'w Libraries" and fl :: Flags where
  loops: "\<not> fair (lib_NewSource lib h) \<Longrightarrow> ended lib fl (Panic Diverges) s1 NeverEnds s1"
| succeeded: "ended lib fl (Ok ()) s1 (Exited 0) (snd (exitHandler lib fl (Ok ()) s1))"
| failed: "recovered r \<noteq> None \<Longrightarrow> r = Panic p \<Longrightarrow> ended lib fl r s1 (Exited 1) (snd (exitHandler lib fl r s1))"

lemma main_ends_by:
  assumes fl: "flag_Parse args default_flags = Inr fl" and run: "main lib args s = (e, s')"
  obtains r s1 where "main_body lib fl (greeted s) = (r, s1)" and "ended lib fl r s1 e s'"
proof -
  obtain r s1 where body: "main_body lib fl (greeted s) = (r, s1)" by (cases "main_body lib fl (greeted s)")
  have main: "main lib args s = (if r = Panic Diverges then (NeverEnds, s1) else exitHandler lib fl r s1)"
    using body fl by (simp add: main_run)
  show thesis
  proof (rule that [OF body])
    show "ended lib fl r s1 e s'"
    proof (cases r)
      case (Ok u)
      then have "e = Exited 0" "s' = snd (exitHandler lib fl (Ok ()) s1)"
        using main run by (simp_all add: exitHandler_def Let_def)
      then show ?thesis using Ok by (simp add: succeeded)
    next
      case (Err err)
      with main_body_no_error [of lib fl "greeted s" err] body show ?thesis by simp
    next
      case (Panic p)
      show ?thesis
      proof (cases "p = Diverges")
        case True
        with Panic main_body_panics [of lib fl "greeted s" p] body main run show ?thesis by (auto intro: loops)
      next
        case False
        then have seen: "recovered r \<noteq> None"
          using Panic main_body_panics [of lib fl "greeted s" p] body by auto
        have "e = Exited 1" "s' = snd (exitHandler lib fl r s1)"
          using False Panic main run exitHandler_exit [OF seen, of lib fl s1] by (simp_all add: prod_eq_iff)
        then show ?thesis using failed [OF seen Panic] by simp
      qed
    qed
  qed
qed

text \<open>A policy of the startup is one of the whole program, around the calls of the initialisation and the script.\<close>

lemma main_policy:
  assumes fl: "flag_Parse args default_flags = Inr fl" and run: "main lib args s = (e, s')"
    and S: "\<And>client. emits calls (lib_startup lib fl client) (\<lambda>evs r. P evs)" and "P []"
  shows "\<exists>boot evs post. calls s' = calls s @ boot @ evs @ post \<and> boot_calls boot \<and> P evs
     \<and> (post = [] \<or> (\<exists>content x. post = [CWriteFile SCRIPT_PATH content 493 x]))"
proof -
  obtain r s1 where body: "main_body lib fl (greeted s) = (r, s1)" and "ended lib fl r s1 e s'"
    by (rule main_ends_by [OF fl run])
  then have ends: "s' = s1 \<or> s' = snd (exitHandler lib fl r s1)" by (auto elim: ended.cases)
  have "emits calls (main_body lib fl) (\<lambda>evs0 r. boot_calls evs0 \<or> (\<exists>boot evs. evs0 = CRun [''who'', ''-b''] (Ok boot) # evs \<and> P evs))"
    by (rule emits_weaken [OF emits_main_body [OF S]]) blast
  from this body obtain evs0 where "calls s1 = calls (greeted s) @ evs0"
    and shape: "boot_calls evs0 \<or> (\<exists>boot evs. evs0 = CRun [''who'', ''-b''] (Ok boot) # evs \<and> P evs)"
    by (rule emitsE)
  then have evs0: "calls s1 = calls s @ evs0" by simp
  obtain boot evs where evs: "calls s1 = calls s @ boot @ evs" "boot_calls boot" "P evs"
    using shape
  proof (elim disjE exE conjE)
    assume "boot_calls evs0"
    then show thesis using that [of evs0 "[]"] evs0 \<open>P []\<close> by simp
  next
    fix boot evs
    assume "evs0 = CRun [''who'', ''-b''] (Ok boot) # evs" and "P evs"
    then show thesis using that [of "[CRun [''who'', ''-b''] (Ok boot)]" evs] evs0 by (simp add: boot_calls_def)
  qed
  from ends exitHandler_calls [of lib fl r s1] obtain post where "calls s' = calls s1 @ post"
    "post = [] \<or> (\<exists>content x. post = [CWriteFile SCRIPT_PATH content 493 x])"
    by (auto simp: welcome_calls_def split: if_splits)
  with evs show ?thesis by (intro exI [of _ boot] exI [of _ evs] exI [of _ post]) simp
qed

text \<open>What the body does when it succeeds, and when it does not.\<close>

definition body_spec :: "(call list \<Rightarrow> bool) \<Rightarrow> (call list \<Rightarrow> bool) \<Rightarrow> call list \<Rightarrow> unit outcome \<Rightarrow> bool" where
  "body_spec good bad evs r \<longleftrightarrow>
     (if r = Ok () then \<exists>boot work. evs = CRun [''who'', ''-b''] (Ok boot) # work \<and> good work else bad evs)"

lemma emits_body_spec:
  assumes "\<And>client. emits calls (lib_startup lib fl client) (good_or_bad (\<lambda>_. good) not_started)"
  shows "emits calls (main_body lib fl) (body_spec good not_started)"
proof (rule emits_weaken [OF emits_main_body [OF assms]], elim disjE exE conjE)
  fix evs and r :: "unit outcome" and msg
  assume "boot_calls evs" and "r = Panic (PanicMessage msg)"
  then show "body_spec good not_started evs r" by (auto simp: body_spec_def boot_calls_def)
next
  fix evs boot evs' and r r' :: "unit outcome"
  assume "evs = CRun [''who'', ''-b''] (Ok boot) # evs'" and "good_or_bad (\<lambda>_. good) not_started evs' r'" and "r = panicked ''Error: '' r'"
  then show "body_spec good not_started evs r" by (cases r') (simp_all add: body_spec_def panicked_def)
qed

text \<open>The program on the machine where everything succeeds, with the declaration of the example.\<close>

definition idle_lib :: "unit Libraries" where
  "idle_lib = \<lparr>lib_Sys = idle_sys, lib_NewClient = (\<lambda>_. Inr idle_docker), lib_NewSource = (\<lambda>_. sconst 0),
     lib_Declaration = (\<lambda>_. Inr \<lparr>Spec = example_spec\<rparr>),
     lib_Json = idle_errors, lib_LowerTable = (\<lambda>r. r), lib_Order = (\<lambda>ks. ks)\<rparr>"

lemma idle_lib_simps [simp]:
  "lib_Sys idle_lib = idle_sys" "lib_NewClient idle_lib x = Inr idle_docker" "lib_NewSource idle_lib h = sconst 0"
  "lib_Declaration idle_lib b = Inr \<lparr>Spec = example_spec\<rparr>" "lib_Order idle_lib = (\<lambda>ks. ks)" "lib_LowerTable idle_lib = (\<lambda>r. r)"
  "lib_Json idle_lib = idle_errors"
  "volumesFlags default_flags = default_volume_flags"
  by (simp_all add: idle_lib_def default_flags_def)

lemma idle_firewall: "succeeds (open_firewall idle_sys True) ()"
proof -
  have exec: "exec_CombinedOutput idle_sys cmd s = (Ok ([], None), ran [CExec cmd (Ok [])] [SExec cmd] [] s)" for cmd s
    by (simp add: exec_CombinedOutput_def observe_def syscall_def external_def idle_sys_def ran_def combined_result_def)
  have ini: "succeeds (InitIpTables idle_sys) ()"
    by (rule succeedsI) (simp add: InitIpTables_def os_Getenv_def idle_sys_def run_defs idle_run)
  have opened: "succeeds (OpenIptables idle_sys) ()"
    by (rule succeedsI) (simp add: OpenIptables_def OpenIptablesForProtocol_def exec run_defs idle_run)
  show ?thesis
    unfolding open_firewall_def if_True by (rule ini opened succeeds_rules)+
qed

lemma idle_startup: "succeeds (lib_startup idle_lib default_flags idle_docker) ()"
proof -
  have manifest: "succeeds (call_Manifest (defaultProvider idle_sys)) idle_body"
    by (rule succeedsI) (simp add: idle_run)
  have auth: "succeeds (retrieve_auth (\<lambda>r. r) a (ct_Image example_container)) []" for a :: "unit AuthProvider"
    by (simp add: retrieve_auth_def UseGcpTokenForImage_no_host example_container_def succeeds_rules)
  have one: "Containers example_spec = [example_container]" "(length [example_container] \<noteq> 1) = False"
    "[example_container] ! 0 = example_container" "openIptables default_flags = True"
    by (simp_all add: example_spec_def default_flags_def)
  show ?thesis
    unfolding ExecStartup_def launch_def idle_lib_simps sum.case ContainerSpec.select_convs one if_False
    by (rule succeeds_rules manifest auth idle_firewall idle_RunContainer)+
qed

lemma idle_rng: "rng (greeted idle_state) = sconst 0"
  by (simp add: greeted_def idle_state_def)

lemma idle_main: "\<exists>s'. main idle_lib [] idle_state = (Exited 0, s')"
proof -
  have who: "succeeds (call_Run (commandRunner idle_sys) [''who'', ''-b'']) []"
    by (rule succeedsI) (simp add: idle_run)
  have host: "succeeds (os_Hostname idle_sys) ''vm''" "succeeds (seed_rng (sconst 0)) ()" "succeeds (lift_result (Inr idle_docker)) idle_docker"
    by (simp_all add: succeeds_def os_Hostname_def idle_sys_def seed_rng_def lift_result_def)
  have "succeeds (default_runner idle_lib default_flags) (lib_runner idle_lib default_flags idle_docker)"
    unfolding default_runner_def GetDefaultRunner_def idle_lib_simps
    by (rule succeeds_rules who host)+
  then have "succeeds (main_body idle_lib default_flags) ()"
    unfolding main_body_def Let_def by (rule succeeds_handle) (rule succeeds_rules idle_startup)+
  then obtain s1 where "main_body idle_lib default_flags (greeted idle_state) = (Ok (), s1)"
    unfolding succeeds_def by (meson idle_rng)
  then show ?thesis by (simp add: main_run exitHandler_def Let_def)
qed

section \<open>Properties\<close>

text \<open>C1. The whole program, on any machine, engine, metadata and declaration, with a valid command line.
  If it exits with status 0, it has initialised itself and then done one complete startup: declaration
  read, token fetched for an image of a Google registry and only then, firewall opened if asked, the
  container created and started; and the welcome script for success was written, last. The only other
  exit status is 1, and then no container was started and the script for failure was written. If it
  never ends, no container was started. Without \<open>-show-welcome\<close> no script is written.\<close>

theorem main_outcome:
  assumes "valid_order (lib_Order lib)" and "flag_Parse args default_flags = Inr fl" and "main lib args s = (e, s')"
  shows "\<exists>evs welcome. calls s' = calls s @ evs @ welcome \<and>
    (case e of
       NeverEnds \<Rightarrow> not_started evs \<and> welcome = []
     | Exited c \<Rightarrow>
         if c = 0
         then (\<exists>boot work. evs = CRun [''who'', ''-b''] (Ok boot) # work \<and> started lib (openIptables fl) (lib_env lib fl) work)
              \<and> welcome_calls fl WELCOME_SCRIPT_ON_SUCCESS welcome
         else c = 1 \<and> not_started evs \<and> welcome_calls fl WELCOME_SCRIPT_ON_FAILURE welcome)"
proof -
  obtain r s1 where body: "main_body lib fl (greeted s) = (r, s1)" and ends: "ended lib fl r s1 e s'"
    by (rule main_ends_by [OF assms(2,3)])
  have order: "valid_order (env_Order (lib_env lib fl))" using assms(1) by simp
  have startup: "emits calls (lib_startup lib fl client) (good_or_bad (\<lambda>_. started lib (openIptables fl) (lib_env lib fl)) not_started)"
    for client by (rule production_agent.emits_ExecStartup [OF order]) simp
  from emits_body_spec [OF startup] body
  obtain evs where "calls s1 = calls (greeted s) @ evs"
    and shape: "body_spec (started lib (openIptables fl) (lib_env lib fl)) not_started evs r" by (rule emitsE)
  then have evs: "calls s1 = calls s @ evs" by simp
  have ok: "r = Ok () \<Longrightarrow> \<exists>boot work. evs = CRun [''who'', ''-b''] (Ok boot) # work \<and> started lib (openIptables fl) (lib_env lib fl) work"
    and bad: "r \<noteq> Ok () \<Longrightarrow> not_started evs"
    using shape by (simp_all add: body_spec_def)
  obtain final where written: "calls (snd (exitHandler lib fl r s1)) = calls s1 @ final"
    "welcome_calls fl (if recovered r = None then WELCOME_SCRIPT_ON_SUCCESS else WELCOME_SCRIPT_ON_FAILURE) final"
    using exitHandler_calls [of lib fl r s1] by blast
  from ends show ?thesis
  proof cases
    case (loops h)
    then show ?thesis using evs bad by (intro exI [of _ evs] exI [of _ "[]"]) simp
  next
    case succeeded
    then show ?thesis using evs ok written by (intro exI [of _ evs] exI [of _ final]) simp
  next
    case (failed p)
    then show ?thesis using evs bad written by (intro exI [of _ evs] exI [of _ final]) auto
  qed
qed

theorem main_outcome_witness:
  "\<exists>s' boot work final. main idle_lib [] idle_state = (Exited 0, s')
     \<and> calls s' = CRun [''who'', ''-b''] (Ok boot) # work @ final
     \<and> started idle_lib True idle_env work \<and> welcome_calls default_flags WELCOME_SCRIPT_ON_SUCCESS final"
proof -
  obtain s' where run: "main idle_lib [] idle_state = (Exited 0, s')" using idle_main by blast
  have idle: "openIptables default_flags = True" "calls idle_state = []" by (simp_all add: default_flags_def idle_state_def)
  have "valid_order (lib_Order idle_lib)" "flag_Parse [] default_flags = Inr default_flags" by (simp_all add: valid_order_id)
  from main_outcome [OF this run] obtain boot work final where "calls s' = (CRun [''who'', ''-b''] (Ok boot) # work) @ final"
    "started idle_lib True idle_env work" "welcome_calls default_flags WELCOME_SCRIPT_ON_SUCCESS final"
    unfolding idle by (simp only: process_end.case if_True refl append_Nil idle_lib_simps) blast
  with run show ?thesis by (intro exI [of _ s'] exI [of _ boot] exI [of _ work] exI [of _ final]) simp
qed

text \<open>C2. The program ends, with status 0 or 1, whatever the machine answers, as long as the seeded
  random numbers do not reject every draw from some point on.\<close>

theorem main_ends:
  assumes "\<And>seed. fair (lib_NewSource lib seed)" and "flag_Parse args default_flags = Inr fl"
  shows "\<exists>c s'. main lib args s = (Exited c, s') \<and> c \<in> {0, 1}"
proof -
  obtain e s' where run: "main lib args s = (e, s')" by (cases "main lib args s")
  show ?thesis
    by (rule main_ends_by [OF assms(2) run]) (use run assms(1) in \<open>auto elim: ended.cases\<close>)
qed

theorem main_ends_witness: "\<exists>c s'. main idle_lib [] idle_state = (Exited c, s') \<and> c \<in> {0, 1}"
  by (rule main_ends) (simp_all add: fair_sconst)

text \<open>C5. Credentials do not leak, on any run: an image outside the Google registries is pulled with the
  encoding of empty credentials, whatever token the command line or the metadata server offers.\<close>

theorem main_credentials:
  assumes "valid_order (lib_Order lib)" and "flag_Parse args default_flags = Inr fl"
  shows "\<exists>evs. calls (snd (main lib args s)) = calls s @ evs \<and> list_all (credentials_ok (lib_LowerTable lib)) evs"
proof -
  obtain e s' where run: "main lib args s = (e, s')" by (cases "main lib args s")
  have order: "valid_order (env_Order (lib_env lib fl))" using assms(1) by simp
  have keeps: "emits calls (lib_startup lib fl client) (\<lambda>evs r. list_all (credentials_ok (lib_LowerTable lib)) evs)" for client
    by (rule credentials_agent.keeps_ExecStartup [OF order _ refl, unfolded keeps_def]) simp
  from main_policy [OF assms(2) run keeps] show ?thesis
    unfolding run by (auto simp: boot_calls_def credentials_ok_def)
qed

theorem main_credentials_witness:
  "list_all (credentials_ok (\<lambda>r. r)) (calls (snd (main idle_lib [] idle_state)))"
  using main_credentials [of idle_lib "[]" default_flags idle_state] by (auto simp: valid_order_id idle_state_def)

text \<open>C6. No disk is formatted or checked on a guess, on any run: every use of \<open>mkfs\<close> or
  \<open>fsck\<close> is directly preceded by an \<open>lsblk\<close> about the same device whose answer chose it,
  empty for \<open>mkfs\<close> and ext4 for \<open>fsck\<close>.\<close>

theorem main_formats_blank_only:
  assumes "valid_order (lib_Order lib)" and "flag_Parse args default_flags = Inr fl"
  shows "\<exists>evs. calls (snd (main lib args s)) = calls s @ evs \<and> fs_guarded (lib_env lib fl) evs"
proof -
  obtain e s' where run: "main lib args s = (e, s')" by (cases "main lib args s")
  have order: "valid_order (env_Order (lib_env lib fl))" using assms(1) by simp
  have keeps: "emits calls (lib_startup lib fl client) (\<lambda>evs r. fs_guarded (lib_env lib fl) evs)" for client
    by (rule fs_agent.keeps_ExecStartup [OF order _ refl, unfolded keeps_def]) simp
  from main_policy [OF assms(2) run keeps] obtain boot evs post where parts: "calls s' = calls s @ boot @ evs @ post"
    "boot_calls boot" "fs_guarded (lib_env lib fl) evs" "post = [] \<or> (\<exists>content x. post = [CWriteFile SCRIPT_PATH content 493 x])"
    by (auto simp: guarded.ok_Nil)
  have "fs_guarded (lib_env lib fl) boot" "fs_guarded (lib_env lib fl) post"
    using parts(2,4) by (auto intro!: guarded_uncritical simp: boot_calls_def is_fs_tool_def fs_tool_def split: if_splits)
  with parts show ?thesis unfolding run by (auto intro: guarded.ok_append)
qed

theorem main_formats_blank_only_witness: "fs_guarded idle_env (calls (snd (main idle_lib [] idle_state)))"
  using main_formats_blank_only [of idle_lib "[]" default_flags idle_state] by (auto simp: valid_order_id idle_state_def)

text \<open>C8. The order of the startup, on every run, failed ones included: the declaration is read before the
  token is fetched, this before any firewall rule, this before the pull, then come the removal of old
  containers, every mount, check and format, the creation, and the start; after the script is written
  nothing follows.\<close>

theorem main_phases:
  assumes "valid_order (lib_Order lib)" and "flag_Parse args default_flags = Inr fl"
  shows "\<exists>boot evs post. calls (snd (main lib args s)) = calls s @ boot @ evs @ post \<and> boot_calls boot
     \<and> within Declaring Starting evs \<and> (post = [] \<or> (\<exists>content x. post = [CWriteFile SCRIPT_PATH content 493 x]))"
proof -
  obtain e s' where run: "main lib args s = (e, s')" by (cases "main lib args s")
  have order: "valid_order (env_Order (lib_env lib fl))" using assms(1) by simp
  have phased: "emits calls (lib_startup lib fl client) (\<lambda>evs r. within Declaring Starting evs)" for client
    by (rule production_agent.phased_ExecStartup [OF order, unfolded phased_def]) simp
  from main_policy [OF assms(2) run phased] show ?thesis unfolding run by simp
qed

theorem main_phases_witness:
  "\<exists>boot evs post. calls (snd (main idle_lib [] idle_state)) = boot @ evs @ post \<and> boot_calls boot \<and> within Declaring Starting evs"
  using main_phases [of idle_lib "[]" default_flags idle_state] by (auto simp: valid_order_id idle_state_def)



end
