(* ===== verification/Mock_Soundness.thy ===== *)
theory Mock_Soundness
  imports Prepare
begin

text \<open>
  What the assertions of \<open>command/mock_runner.go\<close> say about the code under test: state
  invariants of the operations of the \<open>volumes\<close> package over any implementation of the runner, and
  the invariant of the mock that ties its counters to the commands that were run.
\<close>

section \<open>Invariants of the state\<close>

lemma preserves_lift_result: "preserves J (lift_result x)"
  by (cases x) (simp_all add: preserves_basic)

text \<open>An invariant that the five calls of the package preserve is preserved by all its operations.\<close>

locale volume_invariant =
  fixes env :: "'w Env" and J :: "'w st \<Rightarrow> bool"
  assumes Run: "preserves J (call_Run (env_Runner env) args)"
    and MkdirAll: "preserves J (call_MkdirAll (env_Runner env) path perm)"
    and Stat: "preserves J (call_Stat (env_Runner env) path)"
    and Disks: "preserves J (call_Disks (env_Metadata env))"
    and logging: "preserves J (log_Printf msg)"
begin

lemma run_cmd: "preserves J (run_cmd env args)"
  unfolding run_cmd_def by (rule Run)

lemma lsblk: "preserves J (getSinglePropertyFromDeviceWithLsblk env prop dev)"
  unfolding getSinglePropertyFromDeviceWithLsblk_def
  by (auto intro!: preserves_rules preserves_lift_result run_cmd simp: Let_def)

lemma device_steps:
  "preserves J (mountDevice env mnt)"
  "preserves J (unmountDevice env mnt)"
  "preserves J (existingMounts env)"
  "preserves J (checkDeviceReadable env dev)"
  "preserves J (checkDeviceNotMounted env dev)"
  "preserves J (checkFilesystemAndFormatIfNeeded env dev fs)"
  "preserves J (createNewMountPath env family name)"
  unfolding mountDevice_def unmountDevice_def existingMounts_def checkDeviceReadable_def checkDeviceNotMounted_def
    checkFilesystemAndFormatIfNeeded_def createNewMountPath_def Let_def
  by (auto intro!: preserves_rules preserves_lift_result run_cmd lsblk Run MkdirAll Stat logging split: option.split)

lemma operations:
  "preserves J (processEmptyDirVolume env ed name)"
  "preserves J (processHostPathVolume env hp)"
  "preserves J (processGcePersistentDiskVolume env pd wantsRW disks)"
  "preserves J (buildDiskMetadataReadOnlyMap env)"
  "preserves J (UnmountExistingVolumes env)"
  unfolding processEmptyDirVolume_def processMemoryBackedEmptyDirVolume_def processHostPathVolume_def
    processGcePersistentDiskVolume_def resolveGcePersistentDiskDevicePath_def buildDiskMetadataReadOnlyMap_def
    UnmountExistingVolumes_def Let_def
  by (auto intro!: preserves_rules preserves_lift_result device_steps Disks logging split: option.split sum.split)

lemma source: "(\<And>x. preserves J (process x)) \<Longrightarrow> preserves J (source v process vars)"
  unfolding source_def attempt_def by (auto intro!: preserves_rules preserves_lift_result split: option.split)

lemma Prepare: "preserves J (PrepareVolumesAndGetBindings env spec)"
  unfolding PrepareVolumesAndGetBindings_def buildVolumeNameToHostPathMap_def countReferences_def processVolume_def Let_def
  by (auto intro!: preserves_rules preserves_lift_result operations source logging split: option.split)

end

section \<open>The counters of the mock\<close>

definition was_run :: "call list \<Rightarrow> string \<Rightarrow> bool" where
  "was_run evs c \<longleftrightarrow> (\<exists>args x. CRun args x \<in> set evs \<and> Join args '' '' = c)"

definition was_made :: "call list \<Rightarrow> string \<Rightarrow> bool" where
  "was_made evs path \<longleftrightarrow> (\<exists>perm x. CMkdirAll path perm x \<in> set evs)"

lemma was_simps [simp]:
  "was_run (evs @ [CRun args x]) = (\<lambda>c. was_run evs c \<or> Join args '' '' = c)"
  "was_run (evs @ [CMkdirAll path perm y]) = was_run evs"
  "was_run (evs @ [CStat p z]) = was_run evs" "was_run (evs @ [CDisks d]) = was_run evs"
  "was_made (evs @ [CMkdirAll path perm y]) = (\<lambda>q. was_made evs q \<or> path = q)"
  "was_made (evs @ [CRun args x]) = was_made evs"
  "was_made (evs @ [CStat p z]) = was_made evs" "was_made (evs @ [CDisks d]) = was_made evs"
  by (auto simp: was_run_def was_made_def fun_eq_iff)

text \<open>
  A registered command has a positive counter exactly if it was run since, and a registered directory
  is marked exactly if it was made; nothing registered is lost, and what a lenient mock adds was used.
\<close>

definition tracks :: "('v \<Rightarrow> bool) \<Rightarrow> (string \<Rightarrow> bool) \<Rightarrow> 'v go_map \<Rightarrow> 'v go_map \<Rightarrow> bool" where
  "tracks marked used before now \<longleftrightarrow>
     (\<forall>k. map_get before k \<noteq> None \<longrightarrow> map_get now k \<noteq> None)
   \<and> (\<forall>k v. map_get now k = Some v \<longrightarrow> (marked v \<longleftrightarrow> used k) \<and> (map_get before k = None \<longrightarrow> used k))"

definition mock_tracks :: "MockRunner \<Rightarrow> MockRunner st \<Rightarrow> bool" where
  "mock_tracks m s \<longleftrightarrow>
     tracks (\<lambda>info. 0 < callCount info) (was_run (calls s)) (commands m) (commands (world s))
   \<and> tracks (\<lambda>called. called) (was_made (calls s)) (expectedMkdirAlls m) (expectedMkdirAlls (world s))"

lemma tracks_all:
  assumes "tracks marked used before now"
  shows "(\<forall>k v. map_get now k = Some v \<longrightarrow> marked v) \<longleftrightarrow> (\<forall>k. map_get before k \<noteq> None \<longrightarrow> used k)"
  using assms unfolding tracks_def by (metis option.exhaust)

lemma tracks_same: "tracks marked used before now \<Longrightarrow> (\<And>k. map_get now k \<noteq> None \<Longrightarrow> used' k = used k) \<Longrightarrow> tracks marked used' before now"
  unfolding tracks_def by fastforce

lemma tracks_put:
  assumes "tracks marked used before now" and "marked v"
  shows "tracks marked (\<lambda>k'. used k' \<or> k = k') before (map_put k v now)"
  using assms unfolding tracks_def by (auto simp: amap.get_put)

interpretation mock_invariant: volume_invariant "test_env vflags stub parse ord" "mock_tracks m" for vflags stub parse ord m
proof unfold_locales
  fix args
  show "preserves (mock_tracks m) (call_Run (env_Runner (test_env vflags stub parse ord)) args)"
    unfolding preserves_def
  proof (intro allI impI)
    fix s :: "MockRunner st"
    let ?c = "Join args '' ''"
    assume J: "mock_tracks m s"
    show "mock_tracks m (snd (call_Run (env_Runner (test_env vflags stub parse ord)) args s))"
    proof (cases "map_get (commands (world s)) ?c = None \<and> FailOnUnexpectedCalls (world s)")
      case True
      with J show ?thesis
        by (auto simp: mock_tracks_def call_Run_def observe_def mock_Run_def Let_def elim!: tracks_same)
    next
      case False
      from J have "tracks (\<lambda>info. 0 < callCount info) (\<lambda>c. was_run (calls s) c \<or> ?c = c) (commands m)
          (commands (incrementCallCount (world s) ?c))"
        unfolding incrementCallCount_def Let_def by (simp add: mock_tracks_def tracks_put)
      with J show ?thesis
        by (simp add: False mock_tracks_def call_Run_def observe_def mock_Run_def Let_def incrementCallCount_def)
    qed
  qed
next
  fix path perm
  show "preserves (mock_tracks m) (call_MkdirAll (env_Runner (test_env vflags stub parse ord)) path perm)"
    unfolding preserves_def
  proof (intro allI impI)
    fix s :: "MockRunner st"
    assume J: "mock_tracks m s"
    show "mock_tracks m (snd (call_MkdirAll (env_Runner (test_env vflags stub parse ord)) path perm s))"
    proof (cases "map_get (expectedMkdirAlls (world s)) path = None \<and> FailOnUnexpectedCalls (world s)")
      case True
      with J show ?thesis
        by (auto simp: mock_tracks_def call_MkdirAll_def observe_def mock_MkdirAll_def Let_def elim!: tracks_same)
    next
      case False
      from J have "tracks (\<lambda>called. called) (\<lambda>q. was_made (calls s) q \<or> path = q) (expectedMkdirAlls m)
          (map_put path True (expectedMkdirAlls (world s)))"
        by (simp add: mock_tracks_def tracks_put)
      with J show ?thesis
        by (simp add: False mock_tracks_def call_MkdirAll_def observe_def mock_MkdirAll_def Let_def)
    qed
  qed
qed (simp_all add: preserves_def call_Stat_def call_Disks_def observe_def mock_Stat_def providerStub_def log_Printf_def
    mock_tracks_def Let_def)

lemma mock_assertions:
  assumes "valid_order ord'" and "mock_tracks m s"
  shows "AssertAllCalled ord' (world s) = None \<longleftrightarrow>
     (\<forall>c. map_get (commands m) c \<noteq> None \<longrightarrow> was_run (calls s) c)
   \<and> (\<forall>path. map_get (expectedMkdirAlls m) path \<noteq> None \<longrightarrow> was_made (calls s) path)"
proof -
  from assms(2) have t: "tracks (\<lambda>info. 0 < callCount info) (was_run (calls s)) (commands m) (commands (world s))"
    "tracks (\<lambda>called. called) (was_made (calls s)) (expectedMkdirAlls m) (expectedMkdirAlls (world s))"
    by (simp_all add: mock_tracks_def)
  show ?thesis
    unfolding AssertAllCalled_iff [OF assms(1)] tracks_all [OF t(1)] tracks_all [OF t(2)] ..
qed

text \<open>A mock on which nothing was called since its commands and directories were registered.\<close>

definition fresh :: "MockRunner \<Rightarrow> bool" where
  "fresh m \<longleftrightarrow> (\<forall>c info. map_get (commands m) c = Some info \<longrightarrow> callCount info = 0)
     \<and> (\<forall>path called. map_get (expectedMkdirAlls m) path = Some called \<longrightarrow> \<not> called)"

lemma fresh_registered:
  "fresh NewMockRunner"
  "fresh m \<Longrightarrow> fresh (OutputOnCall c out m)" "fresh m \<Longrightarrow> fresh (ErrorOnCall c e m)"
  "fresh m \<Longrightarrow> fresh (RegisterMkdirAll path m)"
  "fresh m \<Longrightarrow> fresh (RegisterDeviceForStat path m)" "fresh m \<Longrightarrow> fresh (RegisterDirectoryForStat path m)"
  by (auto simp: fresh_def NewMockRunner_def OutputOnCall_def ErrorOnCall_def RegisterMkdirAll_def RegisterDeviceForStat_def
      RegisterDirectoryForStat_def amap.get_put amap.get_make split: if_splits)

lemma fresh_tracks: "fresh (world s) \<Longrightarrow> calls s = [] \<Longrightarrow> mock_tracks (world s) s"
  by (auto simp: fresh_def mock_tracks_def tracks_def was_run_def was_made_def)

section \<open>Properties\<close>

text \<open>C16. What a passing test of the volume preparation has shown: if it starts with a mock on which
  commands and directories are only registered, \<open>AssertAllCalled\<close> passes afterwards exactly if every
  registered command was run, word for word, and every registered directory was made, whatever the
  declaration and the answers, and however the preparation ended.\<close>

theorem mock_assertions_sound:
  assumes "fresh (world s)" and "calls s = []" and "valid_order ord'"
    and "PrepareVolumesAndGetBindings (test_env vflags stub parse ord) spec s = (r, s')"
  shows "AssertAllCalled ord' (world s') = None \<longleftrightarrow>
     (\<forall>c. map_get (commands (world s)) c \<noteq> None \<longrightarrow> was_run (calls s') c)
   \<and> (\<forall>path. map_get (expectedMkdirAlls (world s)) path \<noteq> None \<longrightarrow> was_made (calls s') path)"
proof (rule mock_assertions [OF assms(3)])
  show "mock_tracks (world s) s'"
    by (rule preservesD [OF mock_invariant.Prepare fresh_tracks [OF assms(1,2)] assms(4)])
qed

text \<open>A declaration with one tmpfs, and a mock that expects it.\<close>

definition tmpfs_spec :: ContainerSpecStruct where
  "tmpfs_spec = \<lparr>Containers = [example_container\<lparr>ct_VolumeMounts := [\<lparr>vm_Name = ''t'', vm_MountPath = ''/t'', vm_ReadOnly = False\<rparr>]\<rparr>],
     Volumes = [\<lparr>vol_Name = ''t'', vol_EmptyDir = Some \<lparr>Medium = ''Memory''\<rparr>, vol_HostPath = None, vol_GcePersistentDisk = None\<rparr>],
     spec_RestartPolicy = None\<rparr>"

definition tmpfs_mock :: MockRunner where
  "tmpfs_mock = RegisterMkdirAll ''/p/tmpfss/t'' (OutputOnCall ''mount -o rw -t tmpfs tmpfs /p/tmpfss/t'' '''' NewMockRunner)"

theorem mock_assertions_sound_witness:
  "\<exists>r s'. PrepareVolumesAndGetBindings (test_env \<lparr>mountedVolumesPathPrefixFlag = ''/p'', hostProcPathFlag = ''''\<rparr>
        \<lparr>stub_Manifest = '''', stub_DiskMetadataJson = ''''\<rparr> (\<lambda>_. Inr []) (\<lambda>ks. ks)) tmpfs_spec
        \<lparr>world = tmpfs_mock, calls = [], syscalls = [], logs = [], rng = sconst 0\<rparr> = (r, s')
     \<and> AssertAllCalled (\<lambda>ks. ks) (world s') = None
     \<and> was_run (calls s') ''mount -o rw -t tmpfs tmpfs /p/tmpfss/t'' \<and> was_made (calls s') ''/p/tmpfss/t''"
proof -
  let ?env = "test_env \<lparr>mountedVolumesPathPrefixFlag = ''/p'', hostProcPathFlag = ''''\<rparr>
      \<lparr>stub_Manifest = '''', stub_DiskMetadataJson = ''''\<rparr> (\<lambda>_. Inr []) (\<lambda>ks. ks)"
  let ?s = "\<lparr>world = tmpfs_mock, calls = [], syscalls = [], logs = [], rng = sconst 0\<rparr>"
  obtain r s' where run: "PrepareVolumesAndGetBindings ?env tmpfs_spec ?s = (r, s')"
    by (cases "PrepareVolumesAndGetBindings ?env tmpfs_spec ?s")
  then have "AssertAllCalled (\<lambda>ks. ks) (world s') = None"
    by (auto simp: PrepareVolumesAndGetBindings_def countReferences_def tmpfs_spec_def example_container_def run_defs
        init_references_def lift_result_def map_range_def map_keys_def buildVolumeNameToHostPathMap_def buildDiskMetadataReadOnlyMap_def
        volume_defs log_Printf_def call_Run_def call_MkdirAll_def call_Disks_def observe_def providerStub_def mock_Run_def mock_MkdirAll_def
        tmpfs_mock_def OutputOnCall_def RegisterMkdirAll_def NewMockRunner_def incrementCallCount_def mock_command_def
        AssertAllCalled_def newMount_def readOnly_def)
  moreover have "fresh (world ?s)" "calls ?s = []" by (simp_all add: tmpfs_mock_def fresh_registered)
  ultimately have "\<forall>c. map_get (commands (world ?s)) c \<noteq> None \<longrightarrow> was_run (calls s') c"
    "\<forall>path. map_get (expectedMkdirAlls (world ?s)) path \<noteq> None \<longrightarrow> was_made (calls s') path"
    using mock_assertions_sound [OF _ _ valid_order_id run] by blast+
  moreover have "map_get (commands (world ?s)) ''mount -o rw -t tmpfs tmpfs /p/tmpfss/t'' \<noteq> None"
    "map_get (expectedMkdirAlls (world ?s)) ''/p/tmpfss/t'' \<noteq> None"
    by (simp_all add: tmpfs_mock_def OutputOnCall_def RegisterMkdirAll_def NewMockRunner_def amap.get_put)
  ultimately show ?thesis using run \<open>AssertAllCalled (\<lambda>ks. ks) (world s') = None\<close> by blast
qed

end
