(* ===== verification/Liveness.thy ===== *)
theory Liveness
  imports Main_Program
begin

text \<open>
  That good things happen: on a machine and an engine that do as they are asked, every well-formed
  declaration ends in a running container. The conditions are on the answers of the interfaces, for
  every state of the world; the conclusion is about the whole program.
\<close>

section \<open>Runs that succeed from every state\<close>

definition achieves :: "('s, 'a) go \<Rightarrow> ('a \<Rightarrow> bool) \<Rightarrow> bool" where
  "achieves m Q \<longleftrightarrow> (\<forall>s. \<exists>v s'. m s = (Ok v, s') \<and> Q v)"

lemma achievesE:
  assumes "achieves m Q"
  obtains v s' where "m s = (Ok v, s')" and "Q v"
  using assms unfolding achieves_def by blast

lemma achieves_weaken: "achieves m P \<Longrightarrow> (\<And>v. P v \<Longrightarrow> Q v) \<Longrightarrow> achieves m Q"
  unfolding achieves_def by blast

lemma achieves_return: "Q v \<Longrightarrow> achieves (returnE v) Q"
  by (simp add: achieves_def)

lemma achieves_handle:
  assumes "achieves m P" and "\<And>v. P v \<Longrightarrow> achieves (k v) Q"
  shows "achieves (handleE m h k) Q"
  unfolding achieves_def
proof
  fix s
  obtain v s' where "m s = (Ok v, s')" "P v" by (rule achievesE [OF assms(1)])
  moreover obtain w s'' where "k v s' = (Ok w, s'')" "Q w" by (rule achievesE [OF assms(2) [OF \<open>P v\<close>]])
  ultimately show "\<exists>v s'. handleE m h k s = (Ok v, s') \<and> Q v" by (simp add: handleE_def)
qed

lemma achieves_bind: "achieves m P \<Longrightarrow> (\<And>v. P v \<Longrightarrow> achieves (k v) Q) \<Longrightarrow> achieves (bindE m k) Q"
  and achieves_seq: "achieves m P \<Longrightarrow> achieves k' Q \<Longrightarrow> achieves (seqE m k') Q"
  unfolding bindE_def seqE_def by (auto intro: achieves_handle)

lemma achieves_log: "achieves k Q \<Longrightarrow> achieves (seqE (log_Printf msg) k) Q"
  by (rule achieves_seq [where P = "\<lambda>_. True"]) (simp add: achieves_def log_Printf_def)

lemma achieves_last_log: "Q () \<Longrightarrow> achieves (log_Printf msg) Q"
  by (simp add: achieves_def log_Printf_def)

lemma achieves_foldE:
  assumes "\<And>done b x todo. xs = done @ x # todo \<Longrightarrow> I done b \<Longrightarrow> achieves (f b x) (I (done @ [x]))" and "I [] b"
  shows "achieves (foldE f b xs) (I xs)"
proof -
  have "achieves (foldE f b ys) (I xs)" if "xs = zs @ ys" "I zs b" for ys zs b
    using that
  proof (induction ys arbitrary: zs b)
    case Nil
    then show ?case unfolding foldE.simps by (intro achieves_return) simp
  next
    case (Cons y ys)
    show ?case
      unfolding foldE.simps
      by (rule achieves_handle [OF assms(1) [OF Cons.prems]], rule Cons.IH [of "zs @ [y]"]) (use Cons.prems in simp_all)
  qed
  from this [of "[]" xs b] assms(2) show ?thesis by simp
qed

section \<open>Cooperative machines\<close>

text \<open>
  Commands succeed; \<open>lsblk\<close> says that no device is mounted and that it holds nothing or ext4; paths
  that are looked at are block devices, and the disk metadata is valid, with the modes \<open>disks\<close>.
\<close>

definition lsblk_answer :: "'w Env \<Rightarrow> string list \<Rightarrow> string \<Rightarrow> bool" where
  "lsblk_answer env args out \<longleftrightarrow>
     (\<forall>dev. args = lsblk_command env ''MOUNTPOINT'' dev \<longrightarrow> Count_newlines out \<le> 1 \<and> TrimSpace out = [])
   \<and> (\<forall>dev. args = lsblk_command env ''FSTYPE'' dev \<longrightarrow> Count_newlines out \<le> 1 \<and> TrimSpace out \<in> {[], ext4FsType})"

definition cooperative :: "'w Env \<Rightarrow> bool go_map \<Rightarrow> bool" where
  "cooperative env disks \<longleftrightarrow>
     (\<forall>args. args \<noteq> [] \<longrightarrow> achieves (call_Run (env_Runner env) args) (lsblk_answer env args))
   \<and> (\<forall>path perm. achieves (call_MkdirAll (env_Runner env) path perm) (\<lambda>_. True))
   \<and> (\<forall>path. achieves (call_Stat (env_Runner env) path) (\<lambda>info. \<exists>i. info = Some i \<and> block_device i))
   \<and> achieves (call_Disks (env_Metadata env)) (\<lambda>json. \<exists>es. env_ParseDisks env json = Inr es \<and> disk_modes es es map_make = Inr disks)"

text \<open>A declaration that can run on disks with these modes.\<close>

definition mountable :: "bool go_map \<Rightarrow> bool \<Rightarrow> Volume \<Rightarrow> bool" where
  "mountable disks wants v \<longleftrightarrow>
     (case (vol_HostPath v, vol_EmptyDir v, vol_GcePersistentDisk v) of
        (Some h, None, None) \<Rightarrow> True
      | (None, Some ed, None) \<Rightarrow> Medium ed = ''Memory''
      | (None, None, Some pd) \<Rightarrow> FsType pd \<in> {[], ext4FsType} \<and> PdName pd \<noteq> [] \<and>
          (\<exists>ro. map_get disks (PdName pd) = Some ro \<and> \<not> (ro \<and> wants))
      | _ \<Rightarrow> False)"

definition runnable :: "bool go_map \<Rightarrow> ContainerSpecStruct \<Rightarrow> bool" where
  "runnable disks spec \<longleftrightarrow>
     (\<exists>c. Containers spec = [c]) \<and> consistent spec
   \<and> (\<forall>v \<in> set (Volumes spec). mountable disks (wants_rw (mounts_of spec) (vol_Name v)) v)
   \<and> (\<exists>policy. restartPolicyName (spec_RestartPolicy spec) = Inr policy)"

lemma run_ok:
  assumes "cooperative env disks" and "args \<noteq> []"
  shows "achieves (run_cmd env args) (lsblk_answer env args)"
  using assms by (simp add: run_cmd_def cooperative_def)

lemma wrap_not_Nil: "args \<noteq> [] \<Longrightarrow> wrapToEnterHostMountNamespace env args \<noteq> []"
  by (simp add: wrapToEnterHostMountNamespace_def Let_def)

lemma lsblk_ok:
  assumes "cooperative env disks"
  shows "achieves (getSinglePropertyFromDeviceWithLsblk env dev ''MOUNTPOINT'') (\<lambda>out. out = [])"
    and "achieves (getSinglePropertyFromDeviceWithLsblk env dev ''FSTYPE'') (\<lambda>out. out \<in> {[], ext4FsType})"
  unfolding getSinglePropertyFromDeviceWithLsblk_def lsblk_command_def [symmetric]
  by (rule achieves_handle [OF run_ok [OF assms]],
      auto simp: lsblk_command_def wrap_not_Nil lsblk_answer_def not_less intro!: achieves_return)+

lemma checks_ok:
  assumes "cooperative env disks"
  shows "achieves (checkDeviceNotMounted env dev) (\<lambda>_. True)"
    and "achieves (checkDeviceReadable env dev) (\<lambda>_. True)"
    and "achieves (checkFilesystemAndFormatIfNeeded env dev ext4FsType) (\<lambda>_. True)"
proof -
  show "achieves (checkDeviceNotMounted env dev) (\<lambda>_. True)"
    unfolding checkDeviceNotMounted_def by (rule achieves_handle [OF lsblk_ok(1) [OF assms]]) (auto intro: achieves_return)
  have "achieves (call_Stat (env_Runner env) dev) (\<lambda>info. \<exists>i. info = Some i \<and> block_device i)"
    using assms by (simp add: cooperative_def)
  then show "achieves (checkDeviceReadable env dev) (\<lambda>_. True)"
    unfolding checkDeviceReadable_def
    by (rule achieves_handle) (auto simp: block_device_def intro: achieves_return)
  have run: "achieves (handleE (run_cmd env (c # args)) (\<lambda>e. throwE (h e)) (\<lambda>out. log_Printf (msg out))) (\<lambda>_. True)" for c args h msg
    by (rule achieves_handle [OF run_ok [OF assms]]) (auto intro: achieves_last_log)
  show "achieves (checkFilesystemAndFormatIfNeeded env dev ext4FsType) (\<lambda>_. True)"
    unfolding checkFilesystemAndFormatIfNeeded_def Let_def
    by (simp add: amap.get_put, rule achieves_handle [OF lsblk_ok(2) [OF assms]])
      (auto intro!: achieves_log run)
qed

lemma mounts_ok:
  assumes "cooperative env disks"
  shows "achieves (createNewMountPath env family name) (\<lambda>_. True)"
    and "achieves (mountDevice env mnt) (\<lambda>_. True)"
    and "achieves (unmountDevice env mnt) (\<lambda>_. True)"
    and "achieves (existingMounts env) (\<lambda>_. True)"
proof -
  have mkdir: "achieves (call_MkdirAll (env_Runner env) path perm) (\<lambda>_. True)" for path perm
    using assms by (simp add: cooperative_def)
  show "achieves (createNewMountPath env family name) (\<lambda>_. True)"
    unfolding createNewMountPath_def Let_def
    by (intro achieves_log, rule achieves_handle [OF mkdir]) (rule achieves_return, simp)
  have run: "achieves (handleE (run_cmd env (wrapToEnterHostMountNamespace env (c # args))) h (\<lambda>out. returnE (f out))) (\<lambda>_. True)"
    for c args h and f :: "string \<Rightarrow> 'c"
    by (rule achieves_handle [OF run_ok [OF assms wrap_not_Nil]]) (auto intro: achieves_return)
  show "achieves (mountDevice env mnt) (\<lambda>_. True)" "achieves (unmountDevice env mnt) (\<lambda>_. True)"
    "achieves (existingMounts env) (\<lambda>_. True)"
    unfolding mountDevice_def unmountDevice_def existingMounts_def Let_def
    using run by (auto intro!: achieves_log)
qed

lemma volumes_ok:
  assumes "cooperative env disks"
  shows "Medium ed = ''Memory'' \<Longrightarrow> achieves (processEmptyDirVolume env ed name) (\<lambda>hp. \<not> hp_readOnly hp)"
    and "FsType pd \<in> {[], ext4FsType} \<Longrightarrow> PdName pd \<noteq> [] \<Longrightarrow> map_get disks (PdName pd) = Some ro \<Longrightarrow> \<not> (ro \<and> wants) \<Longrightarrow>
      achieves (processGcePersistentDiskVolume env pd wants disks) (\<lambda>hp. hp_readOnly hp \<longrightarrow> \<not> wants)"
    and "achieves (processHostPathVolume env h) (\<lambda>hp. \<not> hp_readOnly hp)"
    and "achieves (UnmountExistingVolumes env) (\<lambda>_. True)"
    and "achieves (buildDiskMetadataReadOnlyMap env) (\<lambda>m. m = disks)"
proof -
  note steps = mounts_ok [OF assms] checks_ok [OF assms]
  show "Medium ed = ''Memory'' \<Longrightarrow> achieves (processEmptyDirVolume env ed name) (\<lambda>hp. \<not> hp_readOnly hp)"
    unfolding processEmptyDirVolume_def processMemoryBackedEmptyDirVolume_def
    by (simp, intro achieves_handle [OF steps(1)] achieves_handle [OF steps(2)] achieves_return, simp)
  show "achieves (processHostPathVolume env h) (\<lambda>hp. \<not> hp_readOnly hp)"
    unfolding processHostPathVolume_def by (intro achieves_return) simp
  show "achieves (UnmountExistingVolumes env) (\<lambda>_. True)"
    unfolding UnmountExistingVolumes_def
  proof (rule achieves_handle [OF steps(4)], rule achieves_bind)
    show "achieves (foldE (\<lambda>buf mnt. handleE (unmountDevice env mnt) (\<lambda>err. returnE (buf @ Error err @ [newline]))
        (\<lambda>_. seqE (log_Printf (''Unmounted '' @ mnt_mountPoint mnt)) (returnE buf))) [] mounts) (\<lambda>buf. buf = [])" for mounts
      by (rule achieves_foldE [where I = "\<lambda>_ buf. buf = []"])
        (auto intro!: achieves_handle [OF steps(3)] achieves_log achieves_return)
  qed (auto intro: achieves_return)
  have "achieves (call_Disks (env_Metadata env)) (\<lambda>json. \<exists>es. env_ParseDisks env json = Inr es \<and> disk_modes es es map_make = Inr disks)"
    using assms by (simp add: cooperative_def)
  then show "achieves (buildDiskMetadataReadOnlyMap env) (\<lambda>m. m = disks)"
    unfolding buildDiskMetadataReadOnlyMap_def by (rule achieves_handle) (auto intro: achieves_return)
  show "achieves (processGcePersistentDiskVolume env pd wants disks) (\<lambda>hp. hp_readOnly hp \<longrightarrow> \<not> wants)"
    if "FsType pd \<in> {[], ext4FsType}" "PdName pd \<noteq> []" "map_get disks (PdName pd) = Some ro" "\<not> (ro \<and> wants)"
  proof -
    have fs: "(FsType pd \<noteq> [] \<and> FsType pd \<noteq> ext4FsType) = False" "(PdName pd = []) = False" "(ro \<and> wants) = False"
      using that by auto
    have tool: "achieves (if \<not> ro then checkFilesystemAndFormatIfNeeded env dev ext4FsType else returnE ()) (\<lambda>_. True)" for dev
      using steps(7) by (simp add: achieves_return)
    show ?thesis
      unfolding processGcePersistentDiskVolume_def resolveGcePersistentDiskDevicePath_def fs if_False Let_def that(3) option.case
        handleE_assoc_return
      by (rule achieves_seq [OF steps(6)], rule achieves_seq [OF steps(5)], rule achieves_seq [OF tool],
          rule achieves_handle [OF steps(1)], rule achieves_handle [OF steps(2)], rule achieves_return) (use that(4) in auto)
  qed
qed

lemma processVolume_ok:
  assumes "cooperative env disks" and "mountable disks w v" and "map_get wants (vol_Name v) = Some w"
  shows "achieves (processVolume env wants disks v) (\<lambda>hp. hp_readOnly hp \<longrightarrow> \<not> w)"
proof -
  have att: "achieves (attempt m) (\<lambda>(hp, e). Q hp \<and> e = None)" if "achieves m Q" for m :: "('a st, VolumeHostPathAndMode) go" and Q
    unfolding attempt_def by (rule achieves_handle [OF that]) (rule achieves_return, simp)
  have src: "achieves (source (Some x) process vars) (\<lambda>(d, hp, e). d = fst vars + 1 \<and> Q hp \<and> e = None)"
    if "achieves (process x) Q" for x :: 'b and process :: "'b \<Rightarrow> ('a st, VolumeHostPathAndMode) go" and vars Q
    unfolding source_def option.case by (rule achieves_bind [OF att [OF that]]) (auto intro: achieves_return)
  have none: "source None process vars = returnE vars" for process :: "'b \<Rightarrow> ('a st, VolumeHostPathAndMode) go" and vars
    by (simp add: source_def)
  have last: "achieves (case vars of (definitions, hp, e) \<Rightarrow> if definitions \<noteq> 1 then throwE (f definitions)
        else (case e of Some e \<Rightarrow> throwE (g e) | None \<Rightarrow> returnE hp)) (\<lambda>hp. hp_readOnly hp \<longrightarrow> \<not> w)"
    if "case vars of (d, hp, e) \<Rightarrow> d = 1 \<and> (hp_readOnly hp \<longrightarrow> \<not> w) \<and> e = None" for vars and f :: "nat \<Rightarrow> go_error" and g
    using that by (cases vars) (auto intro: achieves_return)
  note vols = volumes_ok [OF assms(1)]
  consider h where "vol_HostPath v = Some h" "vol_EmptyDir v = None" "vol_GcePersistentDisk v = None"
    | ed where "vol_HostPath v = None" "vol_EmptyDir v = Some ed" "vol_GcePersistentDisk v = None" "Medium ed = ''Memory''"
    | pd ro where "vol_HostPath v = None" "vol_EmptyDir v = None" "vol_GcePersistentDisk v = Some pd"
        "FsType pd \<in> {[], ext4FsType}" "PdName pd \<noteq> []" "map_get disks (PdName pd) = Some ro" "\<not> (ro \<and> w)"
    using assms(2) unfolding mountable_def by (auto split: option.splits)
  then show ?thesis
  proof cases
    case 1
    show ?thesis
      unfolding processVolume_def assms(3) option.case 1 none bindE_return
      by (rule achieves_bind, rule src, rule vols(3), rule last) auto
  next
    case 2
    show ?thesis
      unfolding processVolume_def assms(3) option.case 2(1-3) none bindE_return
      by (rule achieves_bind, rule src, rule vols(1) [OF 2(4)], rule last) auto
  next
    case 3
    show ?thesis
      unfolding processVolume_def assms(3) option.case 3(1-3) none bindE_return
      by (rule achieves_bind, rule src, rule vols(2) [OF 3(4-7)], rule last) auto
  qed
qed

lemma countReferences_ok:
  assumes "consistent spec"
  shows "achieves (countReferences spec) (counted (volume_names spec) (mounts_of spec))"
  unfolding achieves_def
proof
  fix s :: "'a st"
  obtain r s' where run: "countReferences spec s = (r, s')" by (cases "countReferences spec s")
  with countReferences_correct [OF run] assms
  show "\<exists>v s'. countReferences spec s = (Ok v, s') \<and> counted (volume_names spec) (mounts_of spec) v"
    by (cases r) (auto simp: consistent_def)
qed

text \<open>A host path for each of these volumes, writable where some mount writes.\<close>

definition hosted :: "ContainerSpecStruct \<Rightarrow> Volume list \<Rightarrow> VolumeHostPathAndMode go_map \<Rightarrow> bool" where
  "hosted spec vs m \<longleftrightarrow> (\<forall>n \<in> vol_Name ` set vs. \<exists>hp. map_get m n = Some hp \<and> (hp_readOnly hp \<longrightarrow> \<not> wants_rw (mounts_of spec) n))"

lemma hosted_writable: "consistent spec \<Longrightarrow> hosted spec (Volumes spec) m \<Longrightarrow> writable_where_wanted m (mounts_of spec)"
  unfolding writable_where_wanted_def hosted_def consistent_def volume_names_def wants_rw_def list_ex_iff
  by (metis image_eqI image_set)

lemma build_ok:
  assumes coop: "cooperative env disks"
    and vols: "\<forall>v \<in> set (Volumes spec). mountable disks (wants_rw (mounts_of spec) (vol_Name v)) v"
    and wants: "\<And>n. n \<in> volume_names spec \<Longrightarrow> map_get wants n = Some (wants_rw (mounts_of spec) n)"
  shows "achieves (buildVolumeNameToHostPathMap env (Volumes spec) wants) (hosted spec (Volumes spec))"
  unfolding buildVolumeNameToHostPathMap_def
proof (rule achieves_handle [OF volumes_ok(5) [OF coop]], hypsubst, rule achieves_foldE)
  fix pre v todo m
  assume split: "Volumes spec = pre @ v # todo" and I: "hosted spec pre m"
  let ?w = "wants_rw (mounts_of spec) (vol_Name v)"
  have "map_get wants (vol_Name v) = Some ?w" using wants split by (simp add: volume_names_def)
  moreover have "mountable disks ?w v" using vols split by simp
  ultimately have "achieves (processVolume env wants disks v) (\<lambda>hp. hp_readOnly hp \<longrightarrow> \<not> ?w)"
    by (intro processVolume_ok [OF coop])
  then show "achieves (bindE (processVolume env wants disks v) (\<lambda>hp. returnE (map_put (vol_Name v) hp m))) (hosted spec (pre @ [v]))"
    by (rule achieves_bind) (use I in \<open>auto simp: hosted_def amap.get_put intro!: achieves_return\<close>)
qed (simp add: hosted_def)

lemma Prepare_ok:
  assumes coop: "cooperative env disks" and "valid_order (env_Order env)" and "runnable disks spec" and c: "Containers spec = [c]"
  shows "achieves (PrepareVolumesAndGetBindings env spec) (\<lambda>b. map_get b (ct_Name c) \<noteq> None)"
  unfolding PrepareVolumesAndGetBindings_def
proof (rule achieves_bind [OF countReferences_ok])
  from assms(3) have spec: "consistent spec" "\<forall>v \<in> set (Volumes spec). mountable disks (wants_rw (mounts_of spec) (vol_Name v)) v"
    by (simp_all add: runnable_def)
  show "consistent spec" by (rule spec)
  fix m :: reference_maps
  assume m: "counted (volume_names spec) (mounts_of spec) m"
  obtain counts wants where maps: "m = (counts, wants)" by (cases m)
  have all: "find (\<lambda>(volumeName, referenceCount). referenceCount = 0) (map_range (env_Order env) counts) = None"
    using unreferenced_iff [OF assms(2) m [unfolded maps]] spec(1) by (simp add: consistent_def)
  have wants: "map_get wants n = Some (wants_rw (mounts_of spec) n)" if "n \<in> volume_names spec" for n
    using m that by (simp add: counted_def maps)
  show "achieves (case m of (volumesReferencesCount, volumeMountWantsReadWriteMap) \<Rightarrow>
       case find (\<lambda>(volumeName, referenceCount). referenceCount = 0) (map_range (env_Order env) volumesReferencesCount) of
         Some (volumeName, _) \<Rightarrow>
           throwE (ErrorString (''Invalid container declaration: Volume '' @ volumeName @ '' not referenced by any container.''))
       | None \<Rightarrow>
           bindE (buildVolumeNameToHostPathMap env (Volumes spec) volumeMountWantsReadWriteMap)
             (\<lambda>volumeNameToHostPathMap. lift_result (bind_containers volumeNameToHostPathMap (Containers spec) map_make)))
     (\<lambda>b. map_get b (ct_Name c) \<noteq> None)"
    unfolding maps prod.case all option.case
  proof (rule achieves_bind [OF build_ok [OF coop spec(2) wants]])
    fix volumes
    assume "hosted spec (Volumes spec) volumes"
    then have "writable_where_wanted volumes (concat (map ct_VolumeMounts [c]))"
      using hosted_writable [OF spec(1)] by (simp add: mounts_of_def c)
    from bind_containers_ok [OF this, of map_make] show "achieves (lift_result (bind_containers volumes (Containers spec) map_make)) (\<lambda>b. map_get b (ct_Name c) \<noteq> None)"
      unfolding c by (simp only: lift_result_simps) (rule achieves_return, simp add: amap.get_put)
  qed
qed

section \<open>The engine and the run\<close>

definition engine_ok :: "'w DockerApiClient \<Rightarrow> bool" where
  "engine_ok client \<longleftrightarrow>
     (\<forall>ref creds. achieves (call_ImagePull client ref creds) (\<lambda>_. True))
   \<and> (\<forall>b. achieves (call_ReadBody client b) (\<lambda>_. True))
   \<and> (\<forall>q. achieves (call_ContainerList client q) (\<lambda>_. True))
   \<and> (\<forall>i q. achieves (call_ContainerRemove client i q) (\<lambda>_. True))
   \<and> (\<forall>cfg hc name. achieves (call_ContainerCreate client cfg hc name) (\<lambda>_. True))
   \<and> (\<forall>i. achieves (call_ContainerStart client i) (\<lambda>_. True))"

lemma pull_ok:
  assumes "engine_ok client"
  shows "achieves (pullImage client auth c) (\<lambda>_. True)"
proof -
  have body: "achieves (bindE (call_ReadBody client b) (\<lambda>body. log_Printf (msg body))) (\<lambda>_. True)" for b msg
    by (rule achieves_bind [where P = "\<lambda>_. True"]) (use assms in \<open>auto simp: engine_ok_def intro: achieves_last_log\<close>)
  have "achieves (deferE m (call_CloseBody client b)) (\<lambda>_. True)" if m: "achieves m (\<lambda>_. True)" for m :: "('a st, unit) go" and b
    unfolding achieves_def
  proof
    fix s
    obtain v s' where "m s = (Ok v, s')" by (rule achievesE [OF m])
    moreover obtain s'' where "call_CloseBody client b s' = (Ok (), s'')"
      by (simp add: call_CloseBody_def observe_def external_def)
    ultimately show "\<exists>v s'. deferE m (call_CloseBody client b) s = (Ok v, s') \<and> True" by (simp add: deferE_def)
  qed
  with body show ?thesis
    unfolding pullImage_def Let_def
    by (intro achieves_log achieves_bind [where P = "\<lambda>_. True"]) (use assms in \<open>simp_all add: engine_ok_def\<close>)
qed

lemma cleanup_ok:
  assumes "engine_ok client"
  shows "achieves (deleteOldContainers ord client raw) (\<lambda>_. True)"
proof -
  have remove: "achieves (foldE (\<lambda>_ (i, name). seqE (log_Printf (msg i name)) (call_ContainerRemove client i True)) () xs) (\<lambda>_. True)" for msg xs
    by (rule achieves_foldE [where I = "\<lambda>_ _. True"]) (use assms in \<open>auto simp: engine_ok_def intro!: achieves_log\<close>)
  show ?thesis
    unfolding deleteOldContainers_def Let_def
    by (rule achieves_bind [where P = "\<lambda>_. True"]) (use assms remove in \<open>auto simp: engine_ok_def intro: achieves_last_log\<close>)
qed

lemma finish_ok:
  assumes "engine_ok client" and "map_get b (ct_Name c) \<noteq> None" and "restartPolicyName policy = Inr name"
  shows "achieves (finishCreation client c b policy generated) (\<lambda>_. True)"
proof -
  have create: "achieves (call_ContainerCreate client cfg hc n) (\<lambda>_. True)" for cfg hc n
    using assms(1) by (simp add: engine_ok_def)
  obtain binds where "map_get b (ct_Name c) = Some binds" using assms(2) by blast
  then show ?thesis
    unfolding finishCreation_def contextError_def ctx_Err_def
    by (simp add: assms(3), intro achieves_handle [OF create] achieves_log achieves_return, simp)
qed

text \<open>The run: only the drawing of the name needs more than the answers.\<close>

lemma RunContainer_ok:
  assumes coop: "cooperative (cr_VolumesEnv runner) disks" and order: "valid_order (env_Order (cr_VolumesEnv runner))"
    and engine: "engine_ok (cr_Client runner)" and spec: "runnable disks spec" and "fair (rng s)"
  shows "\<exists>s'. RunContainer runner auth spec detach s = (Ok (), s')"
proof -
  from spec obtain c name where c: "Containers spec = [c]" and policy: "restartPolicyName (spec_RestartPolicy spec) = Inr name"
    by (auto simp: runnable_def)
  obtain suf s1 where suf: "generateRandomSuffix 4 s = (Ok suf, s1)"
    using generateRandomSuffix_returns [OF assms(5), of 4] by blast
  have warn: "achieves (printWarningIfLikelyHasMistake command args) (\<lambda>_. True)" for command args
    unfolding printWarningIfLikelyHasMistake_def Let_def by (auto intro: achieves_last_log achieves_return)
  have unmount: "achieves (handleE (UnmountExistingVolumes (cr_VolumesEnv runner)) h (\<lambda>_. returnE ())) (\<lambda>_. True)" for h
    by (rule achieves_handle [OF volumes_ok(4) [OF coop]]) (rule achieves_return, simp)
  have create: "achieves (seqE (log_Printf msg1) (seqE (pullImage (cr_Client runner) auth c)
      (seqE (deleteOldContainers ord (cr_Client runner) raw) (seqE (printWarningIfLikelyHasMistake command args)
      (seqE (handleE (UnmountExistingVolumes (cr_VolumesEnv runner)) h (\<lambda>_. returnE ()))
      (bindE (PrepareVolumesAndGetBindings (cr_VolumesEnv runner) spec) (\<lambda>bindingMap.
       finishCreation (cr_Client runner) c bindingMap (spec_RestartPolicy spec) generated))))))) (\<lambda>_. True)" for msg1 ord raw command args h generated
    by (rule achieves_log, rule achieves_seq [OF pull_ok [OF engine]], rule achieves_seq [OF cleanup_ok [OF engine]],
        rule achieves_seq [OF warn], rule achieves_seq [OF unmount], rule achieves_bind [OF Prepare_ok [OF coop order spec c]],
        rule finish_ok [OF engine _ policy])
  have one: "(length [c] \<noteq> 1) = False" "[c] ! 0 = c" by simp_all
  have first: "handleE (generateRandomSuffix 4) h k s = k suf s1" for h and k :: "string \<Rightarrow> ('a st, string) go"
    by (simp add: handleE_def suf)
  obtain i s2 where "createContainer runner auth spec s = (Ok i, s2)"
    unfolding createContainer_def c one if_False Let_def bindE_def [of "generateRandomSuffix 4"] first
    by (rule achievesE [OF create])
  moreover have "achieves (startContainer (cr_Client runner) i) (\<lambda>_. True)"
    unfolding startContainer_def by (rule achieves_log) (use engine in \<open>simp add: engine_ok_def\<close>)
  then obtain s3 where "startContainer (cr_Client runner) i s2 = (Ok (), s3)" by (rule achievesE) simp
  ultimately show ?thesis by (simp add: RunContainer_def bindE_def handleE_def)
qed

section \<open>The whole program\<close>

text \<open>The machine, the engine, the metadata server and the declaration as a user wants them.\<close>

definition in_order :: "'w Libraries \<Rightarrow> Flags \<Rightarrow> bool go_map \<Rightarrow> ContainerSpecStruct \<Rightarrow> bool" where
  "in_order lib fl disks spec \<longleftrightarrow>
     (\<exists>client. lib_NewClient lib DOCKER_UNIX_SOCKET = Inr client \<and> engine_ok client)
   \<and> (\<forall>w. \<exists>host. sys_Hostname (lib_Sys lib) w = Inr host)
   \<and> cooperative (lib_env lib fl) disks
   \<and> achieves (call_Manifest (defaultProvider (lib_Sys lib))) (\<lambda>body. lib_Declaration lib body = Inr \<lparr>Spec = spec\<rparr>)
   \<and> (UseGcpTokenForImage (lib_LowerTable lib) (ct_Image (Containers spec ! 0)) \<longrightarrow> achieves (call_Token (choose_auth lib fl)) (\<lambda>_. True))
   \<and> (\<forall>w. sys_Getenv (lib_Sys lib) ''HOST_IPTABLES'' w \<noteq> []) \<and> (\<forall>cmd w. snd (fst (sys_Exec (lib_Sys lib) cmd w)) = None)
   \<and> (\<forall>seed. fair (lib_NewSource lib seed)) \<and> valid_order (lib_Order lib)"

lemma firewall_ok:
  assumes "\<forall>w. sys_Getenv sys ''HOST_IPTABLES'' w \<noteq> []" and "\<forall>cmd w. snd (fst (sys_Exec sys cmd w)) = None"
  shows "achieves (open_firewall sys enabled) (\<lambda>_. True)"
proof -
  have exec: "achieves (exec_CombinedOutput sys cmd) (\<lambda>(out, err). err = None)" for cmd
    using assms(2) by (auto simp: achieves_def exec_CombinedOutput_def observe_def syscall_def external_def split: prod.splits, metis fst_conv snd_conv)
  have env: "achieves (os_Getenv sys ''HOST_IPTABLES'') (\<lambda>v. v \<noteq> [])"
    using assms(1) by (simp add: achieves_def os_Getenv_def)
  have ini: "achieves (InitIpTables sys) (\<lambda>_. True)"
    unfolding InitIpTables_def
    by (rule achieves_log, rule achieves_bind [OF env]) (auto intro!: achieves_log achieves_last_log achieves_bind [OF exec])
  have protocol: "achieves (OpenIptablesForProtocol sys protocol) (\<lambda>_. True)" for protocol
    unfolding OpenIptablesForProtocol_def
    by (auto intro!: achieves_log achieves_return achieves_bind [OF exec])
  have opened: "achieves (OpenIptables sys) (\<lambda>_. True)"
    unfolding OpenIptables_def by (intro achieves_seq [OF protocol] achieves_return) simp
  show ?thesis
    unfolding open_firewall_def
    by (auto intro!: achieves_return achieves_seq [where P = "\<lambda>_. True"] achieves_handle [OF ini] achieves_handle [OF opened])
qed

lemma launch_ok:
  assumes "in_order lib fl disks spec" and "runnable disks spec" and "engine_ok client" and fair: "fair (rng s)"
  shows "\<exists>s'. launch lib detached (choose_auth lib fl) (lib_runner lib fl client) openIpt spec s = (Ok (), s')"
proof -
  let ?img = "ct_Image (Containers spec ! 0)"
  from assms(2) have one: "(length (Containers spec) \<noteq> 1) = False" by (auto simp: runnable_def)
  have "achieves (retrieve_auth (lib_LowerTable lib) (choose_auth lib fl) ?img) (\<lambda>_. True)"
    unfolding retrieve_auth_def
    using assms(1) by (auto simp: in_order_def intro!: achieves_log achieves_return achieves_handle [where P = "\<lambda>_. True"])
  then obtain auth s1 where auth: "retrieve_auth (lib_LowerTable lib) (choose_auth lib fl) ?img s = (Ok auth, s1)"
    by (rule achievesE)
  have "achieves (open_firewall (lib_Sys lib) openIpt) (\<lambda>_. True)"
    using assms(1) by (intro firewall_ok) (simp_all add: in_order_def)
  then obtain u s2 where firewall: "open_firewall (lib_Sys lib) openIpt s1 = (Ok u, s2)" by (rule achievesE)
  let ?s3 = "s2\<lparr>logs := logs s2 @ [''Launching user container '' @ quoted ?img]\<rparr>"
  have "rng ?s3 = rng s"
    using keeps_rng_step [OF keeps_rng_parts(2) auth] keeps_rng_step [OF keeps_rng_parts(3) firewall] by simp
  with fair have fair3: "fair (rng ?s3)" by simp
  have coop: "cooperative (cr_VolumesEnv (lib_runner lib fl client)) disks"
    and order: "valid_order (env_Order (cr_VolumesEnv (lib_runner lib fl client)))"
    and engine: "engine_ok (cr_Client (lib_runner lib fl client))"
    using assms(1,3) by (simp_all add: in_order_def)
  obtain s4 where "RunContainer (lib_runner lib fl client) auth spec detached ?s3 = (Ok (), s4)"
    using RunContainer_ok [OF coop order engine assms(2) fair3] by blast
  with auth firewall show ?thesis
    unfolding launch_def one if_False by (simp add: bindE_def seqE_def handleE_def log_Printf_def)
qed

lemma main_body_ok:
  assumes works: "in_order lib fl disks spec" and "runnable disks spec"
  shows "\<exists>s'. main_body lib fl s = (Ok (), s')"
proof -
  from works obtain client where client: "lib_NewClient lib DOCKER_UNIX_SOCKET = Inr client" "engine_ok client"
    by (auto simp: in_order_def)
  have "\<exists>host. sys_Hostname (lib_Sys lib) w = Inr host" for w
    using works by (simp add: in_order_def)
  then have "achieves (os_Hostname (lib_Sys lib)) (\<lambda>_. True)"
    by (simp add: achieves_def os_Hostname_def) (metis of_sum_simps(2))
  note host = this
  have who: "achieves (call_Run (commandRunner (lib_Sys lib)) [''who'', ''-b'']) (lsblk_answer (lib_env lib fl) [''who'', ''-b''])"
    using works by (simp add: in_order_def cooperative_def)
  have seeded: "achieves (seed_rng numbers) (\<lambda>_. True)" for numbers
    by (simp add: achieves_def seed_rng_def)
  have "achieves (default_runner lib fl) (\<lambda>runner. runner = lib_runner lib fl client)"
    unfolding default_runner_def GetDefaultRunner_def client(1) lift_result_simps bindE_return
    by (rule achieves_bind [OF host], rule achieves_bind [OF who], rule achieves_seq [OF seeded], rule achieves_return) simp
  then obtain s1 where runner: "default_runner lib fl s = (Ok (lib_runner lib fl client), s1)" by (rule achievesE) simp
  then obtain h where "rng s1 = lib_NewSource lib h" using default_runner_run by blast
  with works have "fair (rng s1)" by (simp add: in_order_def)
  have "achieves (call_Manifest (defaultProvider (lib_Sys lib))) (\<lambda>body. lib_Declaration lib body = Inr \<lparr>Spec = spec\<rparr>)"
    using works by (simp add: in_order_def)
  then obtain body s2 where manifest: "call_Manifest (defaultProvider (lib_Sys lib)) s1 = (Ok body, s2)"
    and parsed: "lib_Declaration lib body = Inr \<lparr>Spec = spec\<rparr>" by (rule achievesE)
  have "rng s2 = rng s1" by (rule keeps_rng_step [OF keeps_rng_parts(1) manifest])
  with \<open>fair (rng s1)\<close> have "fair (rng s2)" by simp
  then obtain s3 where "launch lib (runDetachedFlag fl) (choose_auth lib fl) (lib_runner lib fl client) (openIptables fl) spec s2 = (Ok (), s3)"
    using launch_ok [OF works assms(2) client(2)] by blast
  with runner manifest parsed show ?thesis
    by (simp add: main_body_def ExecStartup_def handleE_def)
qed

section \<open>Properties\<close>

text \<open>C3. If everything is in order, the container gets started: on a machine, engine and metadata server
  that answer, with a declaration whose one container and volumes are well formed and whose disks are
  attached as its mounts need them, the program ends with status 0, for every valid command line; by
  the first property this is a complete startup.\<close>

theorem container_gets_started:
  assumes "in_order lib fl disks spec" and "runnable disks spec" and "flag_Parse args default_flags = Inr fl"
  shows "\<exists>s'. main lib args s = (Exited 0, s')"
proof -
  obtain s1 where "main_body lib fl (greeted s) = (Ok (), s1)" using main_body_ok [OF assms(1,2)] by blast
  then show ?thesis by (simp add: main_run assms(3) exitHandler_def Let_def)
qed

lemma idle_in_order: "in_order idle_lib fl [(''pd'', False)] example_spec"
proof -
  have stat: "block_device \<lparr>fi_Name = path, fi_Size = 0, fi_Mode = ModeDevice\<rparr>" for path
    by (simp add: block_device_def device_modes)
  have "achieves (call_Run (commandRunner idle_sys) args) (lsblk_answer env args)" if "args \<noteq> []" for args and env :: "unit Env"
    using that by (cases args) (simp_all add: achieves_def idle_run lsblk_answer_def Count_newlines_def)
  then have "cooperative (lib_env idle_lib fl) [(''pd'', False)]"
    unfolding cooperative_def by (simp add: achieves_def idle_run idle_disks stat map_put_def map_make_def Let_def)
  moreover have "engine_ok idle_docker"
    by (simp add: engine_ok_def achieves_def idle_run Let_def)
  moreover have "\<not> UseGcpTokenForImage t (ct_Image (Containers example_spec ! 0))" for t
    by (simp add: example_spec_def example_container_def UseGcpTokenForImage_no_host)
  ultimately show ?thesis
    by (simp add: in_order_def achieves_def idle_run fair_sconst valid_order_id) (simp add: idle_sys_def)
qed

lemma example_runnable: "runnable [(''pd'', False)] example_spec"
  by (auto simp: runnable_def example_spec_def example_container_def consistent_def mounts_of_def volume_names_def mountable_def
      pd_volume_def map_get_def restartPolicyName_def ext4FsType_def)

theorem container_gets_started_witness:
  "\<exists>s'. main idle_lib [''-open-iptables=false''] idle_state = (Exited 0, s')"
proof -
  have "flag_Parse [''-open-iptables=false''] default_flags = Inr (default_flags\<lparr>openIptables := False\<rparr>)"
    by (simp add: flag_Parse.simps(2) cut_equals_def set_bool_flag.simps ParseBool_def)
  from container_gets_started [OF idle_in_order example_runnable this] show ?thesis .
qed

end
