(* ===== verification/Authorized.thy ===== *)
theory Authorized
  imports Prepare
begin

text \<open>
  What the preparation of volumes may touch. \<open>authorized\<close> lists the calls a declaration and the
  modes of the attached disks justify; every run makes no other, also a run that fails half-way. This
  is the least privilege of \<open>volumes/volumes.go\<close>: nothing is stat'ed, formatted, checked, created
  or mounted that the declaration does not name, and no disk attached read-only is written.
\<close>

section \<open>Justified calls\<close>

inductive authorized :: "'w Env \<Rightarrow> bool go_map \<Rightarrow> Volume list \<Rightarrow> call \<Rightarrow> bool" for env disks vs where
  stat_device: "v \<in> set vs \<Longrightarrow> vol_GcePersistentDisk v = Some pd \<Longrightarrow> authorized env disks vs (CStat (pd_device pd) x)"
| ask_lsblk: "v \<in> set vs \<Longrightarrow> vol_GcePersistentDisk v = Some pd \<Longrightarrow>
    authorized env disks vs (CRun (lsblk_command env property (pd_device pd)) out)"
| list_devices: "authorized env disks vs (CRun (wrapToEnterHostMountNamespace env [''lsblk'']) out)"
| prepare_device: "v \<in> set vs \<Longrightarrow> vol_GcePersistentDisk v = Some pd \<Longrightarrow> map_get disks (PdName pd) = Some False \<Longrightarrow>
    authorized env disks vs (CRun (fs_tool found (pd_device pd)) out)"
| make_disk_dir: "v \<in> set vs \<Longrightarrow> vol_GcePersistentDisk v = Some pd \<Longrightarrow>
    authorized env disks vs (CMkdirAll (new_mount_path env ''gce-persistent-disk'' (PdName pd)) 493 out)"
| mount_disk: "v \<in> set vs \<Longrightarrow> vol_GcePersistentDisk v = Some pd \<Longrightarrow> map_get disks (PdName pd) = Some attachedRO \<Longrightarrow>
    attachedRO \<le> ro \<Longrightarrow> authorized env disks vs (CRun (mount_command env (pd_mount env pd ro)) out)"
| make_tmpfs_dir: "v \<in> set vs \<Longrightarrow> vol_EmptyDir v = Some ed \<Longrightarrow>
    authorized env disks vs (CMkdirAll (new_mount_path env ''tmpfs'' (vol_Name v)) 493 out)"
| mount_tmpfs: "v \<in> set vs \<Longrightarrow> vol_EmptyDir v = Some ed \<Longrightarrow>
    authorized env disks vs (CRun (mount_command env (tmpfs_mount env (vol_Name v))) out)"

locale authorized_env = volumes_env env for env :: "'w Env" +
  fixes disks :: "bool go_map" and vs :: "Volume list"

sublocale authorized_env \<subseteq> justified: trace_policy "list_all (authorized env disks vs)" "calls :: 'w st \<Rightarrow> call list"
  by unfold_locales auto

context authorized_env
begin

abbreviation ok :: "call list \<Rightarrow> bool" where
  "ok \<equiv> list_all (authorized env disks vs)"

lemma keeps_leaf:
  "(\<And>x. authorized env disks vs (CRun args x)) \<Longrightarrow> keeps calls ok (run_cmd env args)"
  "(\<And>x. authorized env disks vs (CMkdirAll path perm x)) \<Longrightarrow> keeps calls ok (call_MkdirAll (env_Runner env) path perm)"
  "(\<And>x. authorized env disks vs (CStat path x)) \<Longrightarrow> keeps calls ok (call_Stat (env_Runner env) path)"
  by (rule keepsI [OF emits_run] keepsI [OF runner.emits_MkdirAll] keepsI [OF runner.emits_Stat]; simp)+

lemma keeps_log: "keeps calls ok (log_Printf msg :: ('w st, unit) go)"
  by (rule justified.keeps_silent) simp

lemma keeps_mount:
  assumes "\<And>x. authorized env disks vs (CRun (mount_command env mnt) x)"
  shows "keeps calls ok (mountDevice env mnt)"
  by (rule keepsI [OF emits_mountDevice]) (use assms in auto)

lemma keeps_lsblk:
  assumes "v \<in> set vs" and "vol_GcePersistentDisk v = Some pd"
  shows "keeps calls ok (getSinglePropertyFromDeviceWithLsblk env (pd_device pd) property)"
  unfolding getSinglePropertyFromDeviceWithLsblk_def lsblk_command_def [symmetric]
  by (auto intro!: justified.keeps_rules keeps_leaf list_devices ask_lsblk [OF assms])

lemma keeps_checks:
  assumes "v \<in> set vs" and "vol_GcePersistentDisk v = Some pd"
  shows "keeps calls ok (checkDeviceNotMounted env (pd_device pd))" "keeps calls ok (checkDeviceReadable env (pd_device pd))"
  unfolding checkDeviceNotMounted_def checkDeviceReadable_def
  by (auto intro!: justified.keeps_rules keeps_lsblk [OF assms] keeps_leaf stat_device [OF assms] split: option.split)

lemma keeps_checkFilesystem:
  assumes "v \<in> set vs" and "vol_GcePersistentDisk v = Some pd" and "map_get disks (PdName pd) = Some False"
  shows "keeps calls ok (checkFilesystemAndFormatIfNeeded env (pd_device pd) fs)"
proof (cases "fs = ext4FsType")
  case True
  have tools: "authorized env disks vs (CRun [''mkfs.ext4'', pd_device pd] x)" "authorized env disks vs (CRun [''fsck.ext4'', ''-p'', pd_device pd] x)" for x
    using prepare_device [OF assms, of env "[]" x] prepare_device [OF assms, of env "ext4FsType" x] by (simp_all add: fs_tool_def ext4FsType_def)
  show ?thesis
    unfolding checkFilesystemAndFormatIfNeeded_def Let_def True amap.get_put
    by (auto intro!: justified.keeps_rules keeps_lsblk [OF assms(1,2)] keeps_leaf keeps_log tools)
qed (simp add: checkFilesystemAndFormatIfNeeded_def amap.get_put amap.get_make justified.keeps_basic)

lemma keeps_mount_at_new_path:
  assumes dir: "\<And>x. authorized env disks vs (CMkdirAll (new_mount_path env family name) 493 x)"
    and mnt: "\<And>x. authorized env disks vs (CRun (mount_command env (mnt (new_mount_path env family name))) x)"
  shows "keeps calls ok (handleE (createNewMountPath env family name) throwE
    (\<lambda>path. handleE (mountDevice env (mnt path)) throwE (\<lambda>_. returnE (f path))))"
  unfolding keeps_def
proof (rule emits_handle [OF emits_createNewMountPath], goal_cases)
  case (1 path evs0)
  then have path: "path = new_mount_path env family name" and evs0: "ok evs0" by (auto simp: dir)
  have "keeps calls ok (handleE (mountDevice env (mnt path)) throwE (\<lambda>_. returnE (f path)))"
    unfolding path by (intro justified.keeps_rules keeps_mount mnt)
  with evs0 show ?case unfolding keeps_def by (auto elim!: emits_weaken)
qed (auto intro!: emits_throw simp: dir)

lemma keeps_EmptyDir:
  assumes "v \<in> set vs" and "vol_EmptyDir v = Some ed"
  shows "keeps calls ok (processEmptyDirVolume env ed (vol_Name v))"
proof (cases "Medium ed = ''Memory''")
  case True
  have mnt: "newMount ''tmpfs'' (new_mount_path env ''tmpfs'' (vol_Name v)) ''tmpfs'' [readOnly False] = tmpfs_mount env (vol_Name v)"
    by (simp add: newMount_def readOnly_def tmpfs_mount_def)
  have "keeps calls ok (processMemoryBackedEmptyDirVolume env ed (vol_Name v))"
    unfolding processMemoryBackedEmptyDirVolume_def
    by (rule keeps_mount_at_new_path) (simp_all add: mnt make_tmpfs_dir [OF assms] mount_tmpfs [OF assms])
  with True show ?thesis by (simp add: processEmptyDirVolume_def)
qed (simp only: processEmptyDirVolume_def if_True not_False_eq_True, rule justified.keeps_basic)

lemma keeps_disk:
  assumes "v \<in> set vs" and "vol_GcePersistentDisk v = Some pd"
  shows "keeps calls ok (processGcePersistentDiskVolume env pd wants disks)"
proof -
  have dev: "(if 0 < Partition pd then (''/dev/disk/by-id/google-'' @ PdName pd) @ ''-part'' @ fmt_d (Partition pd)
      else ''/dev/disk/by-id/google-'' @ PdName pd) = pd_device pd"
    by (simp add: pd_device_def)
  have mnt: "newMount (pd_device pd) (new_mount_path env ''gce-persistent-disk'' (PdName pd)) ext4FsType [readOnly ro] = pd_mount env pd ro" for ro
    by (simp add: newMount_def readOnly_def pd_mount_def Let_def)
  have mount: "keeps calls ok (handleE (createNewMountPath env ''gce-persistent-disk'' (PdName pd)) throwE
      (\<lambda>path. handleE (mountDevice env (newMount (pd_device pd) path ext4FsType [readOnly (attachedRO \<or> \<not> wants)])) throwE
         (\<lambda>_. returnE \<lparr>hp_hostPath = path, hp_readOnly = attachedRO \<or> \<not> wants\<rparr>)))"
    if "map_get disks (PdName pd) = Some attachedRO" for attachedRO
    by (rule keeps_mount_at_new_path)
      (auto simp: mnt intro!: make_disk_dir [OF assms] mount_disk [OF assms that])
  have fs: "keeps calls ok (if \<not> attachedRO then checkFilesystemAndFormatIfNeeded env (pd_device pd) ext4FsType else returnE ())"
    if "map_get disks (PdName pd) = Some attachedRO" for attachedRO
    using keeps_checkFilesystem [OF assms] that justified.keeps_basic by (cases attachedRO) auto
  show ?thesis
    unfolding processGcePersistentDiskVolume_def resolveGcePersistentDiskDevicePath_def Let_def handleE_assoc_return dev
    by (intro justified.keeps_if justified.keeps_option justified.keeps_basic justified.keeps_seq keeps_checks [OF assms] fs mount)
qed

lemma keeps_processVolume:
  assumes "v \<in> set vs"
  shows "keeps calls ok (processVolume env wants disks v)"
  unfolding processVolume_def processHostPathVolume_def
  by (auto intro!: justified.keeps_rules justified.keeps_source keeps_EmptyDir [OF assms] keeps_disk [OF assms] split: option.split)

lemma keeps_volumes: "keeps calls ok (foldE (\<lambda>m v. bindE (processVolume env wants disks v) (\<lambda>hp. returnE (f m v hp))) m vs)"
  by (auto intro!: justified.keeps_rules keeps_processVolume)

end

interpretation authorized_production: authorized_env "production_env vflags sys parse ord" disks vs
  for vflags and sys :: "'w Sys" and parse ord disks vs
  by unfold_locales

section \<open>The preparation\<close>

text \<open>
  A trace within the privileges of a declaration: nothing, or the request for the disk metadata, then
  only calls that the declared volumes and the modes in its answer justify.
\<close>

definition least_privilege :: "'w Env \<Rightarrow> Volume list \<Rightarrow> call list \<Rightarrow> bool" where
  "least_privilege env vs evs \<longleftrightarrow> evs = [] \<or> (\<exists>x rest. evs = CDisks x # rest \<and>
     (rest = [] \<or> (\<exists>json es disks. x = Ok json \<and> env_ParseDisks env json = Inr es \<and> disk_modes es es map_make = Inr disks
        \<and> list_all (authorized env disks vs) rest)))"

lemma emits_lift_result: "S [] (Ok v) \<Longrightarrow> emits obs (lift_result (Inr v)) S" "S [] (Err e) \<Longrightarrow> emits obs (lift_result (Inl e)) S"
  by (simp_all add: emits_return emits_throw)

lemma buildDiskMetadata_one_call:
  "emits calls (buildDiskMetadataReadOnlyMap (production_env vflags sys parse ord))
     (\<lambda>evs r. \<exists>x. evs = [CDisks x] \<and> (case r of Ok disks \<Rightarrow> \<exists>json es. x = Ok json \<and> parse json = Inr es \<and> disk_modes es es map_make = Inr disks | _ \<Rightarrow> True))"
  unfolding buildDiskMetadataReadOnlyMap_def
proof (rule emits_handle [OF production.provider.emits_Disks], goal_cases)
  case (1 json evs0)
  show ?case
  proof (cases "parse json")
    case (Inr es)
    with 1 show ?thesis
      by (cases "disk_modes es es map_make") (auto intro!: emits_return emits_throw)
  qed (use 1 in \<open>auto intro!: emits_throw\<close>)
qed (auto intro!: emits_throw)

lemma build_within_privileges:
  "emits calls (buildVolumeNameToHostPathMap (production_env vflags sys parse ord) vs wants)
     (\<lambda>evs r. least_privilege (production_env vflags sys parse ord) vs evs)"
  unfolding buildVolumeNameToHostPathMap_def
proof (rule emits_handle [OF buildDiskMetadata_one_call], goal_cases)
  case (1 disks evs0)
  then obtain json es where "evs0 = [CDisks (Ok json)]" "parse json = Inr es" "disk_modes es es map_make = Inr disks"
    by auto
  then show ?case
    by (intro emits_weaken [OF authorized_production.keeps_volumes [unfolded keeps_def]]) (auto simp: least_privilege_def)
qed (auto intro!: emits_throw simp: least_privilege_def)

section \<open>Properties\<close>

text \<open>C7. The preparation of volumes touches only what the declaration names, on any machine and on every
  run, failed ones included. The only device files examined, formatted, checked or mounted are those of
  declared persistent disks; a disk is formatted or checked only if the metadata lists it as
  \<open>READ_WRITE\<close>, and one attached read-only is mounted read-only if at all; the only directories
  made and mount points used are those of declared volumes below konlet's prefix.\<close>

theorem Prepare_least_privilege:
  "emits calls (PrepareVolumesAndGetBindings (production_env vflags sys parse ord) spec)
     (\<lambda>evs r. least_privilege (production_env vflags sys parse ord) (Volumes spec) evs)"
  unfolding PrepareVolumesAndGetBindings_def bindE_def
proof (rule emits_handle [OF silent_countReferences [unfolded silent_emits]], goal_cases)
  case (1 cw evs0)
  obtain c w where "cw = (c, w)" by (cases cw)
  with 1 show ?case
    by (auto split: option.split intro!: emits_throw emits_handle [OF build_within_privileges])
      (auto simp: least_privilege_def intro!: emits_throw emits_weaken [OF silent_lift_result [unfolded silent_emits]])
qed (auto intro!: emits_throw simp: least_privilege_def)

end
