(* ===== verification/Host_Mounts.thy ===== *)
theory Host_Mounts
  imports Runtime
begin

text \<open>
  The mounts below konlet's prefix as a state that the commands \<open>mount\<close> and \<open>umount\<close>
  change and \<open>/proc/mounts\<close> shows: what the calls of a run, as the trace theorems describe them,
  make of that state.
\<close>

section \<open>Mounts as a state\<close>

text \<open>Unmounting a mount point takes away the last mount on it.\<close>

fun unmounted :: "string \<Rightarrow> mount list \<Rightarrow> mount list" where
  "unmounted p [] = []"
| "unmounted p (m # ms) = (if mnt_mountPoint m = p \<and> p \<notin> mnt_mountPoint ` set ms then ms else m # unmounted p ms)"

abbreviation mounted_at :: "string \<Rightarrow> mount list \<Rightarrow> bool" where
  "mounted_at p ms \<equiv> p \<in> mnt_mountPoint ` set ms"

definition mounts_at :: "string \<Rightarrow> mount list \<Rightarrow> nat" where
  "mounts_at p ms = length (filter (\<lambda>m. mnt_mountPoint m = p) ms)"

lemma mounts_at_simps [simp]:
  "mounts_at p [] = 0" "mounts_at p (m # ms) = (if mnt_mountPoint m = p then 1 else 0) + mounts_at p ms"
  by (simp_all add: mounts_at_def)

lemma mounted_at_iff: "mounted_at p ms \<longleftrightarrow> 0 < mounts_at p ms"
  by (induction ms) auto

lemma mounts_at_unmounted: "mounts_at q (unmounted p ms) = (if q = p then mounts_at q ms - 1 else mounts_at q ms)"
proof (induction p ms rule: unmounted.induct)
  case (2 p m ms)
  then show ?case using mounted_at_iff [of p ms] by auto
qed simp

lemma filter_unmounted: "(\<And>m. mnt_mountPoint m = p \<Longrightarrow> \<not> Q m) \<Longrightarrow> filter Q (unmounted p ms) = filter Q ms"
  by (induction p ms rule: unmounted.induct) auto

lemma set_unmounted: "set (unmounted p ms) \<subseteq> set ms"
  by (induction p ms rule: unmounted.induct) auto

text \<open>
  The effect of one call on konlet's mounts. The table of the host lists them in order, between others,
  whose lines fit the buffer of the scanner.
  A mount point in use stays: \<open>umount\<close> fails on those in \<open>busy\<close> and on no other mounted one.
  What the kernel shows of a new mount is up to it, except for the mount point.
\<close>

definition konlets :: "'w Env \<Rightarrow> mount \<Rightarrow> bool" where
  "konlets env m \<longleftrightarrow> HasPrefix (mnt_mountPoint m) (env_mountedVolumesPathPrefix env)"

definition umount_effect :: "string set \<Rightarrow> string \<Rightarrow> mount list \<Rightarrow> string outcome \<Rightarrow> mount list \<Rightarrow> bool" where
  "umount_effect busy p ms x ms' \<longleftrightarrow>
     (if \<not> mounted_at p ms then ms' = ms
      else if p \<in> busy then (\<exists>e. x = Err e) \<and> ms' = ms
      else is_ok x \<and> ms' = unmounted p ms)"

definition mount_effect :: "string \<Rightarrow> mount list \<Rightarrow> string outcome \<Rightarrow> mount list \<Rightarrow> bool" where
  "mount_effect p ms x ms' \<longleftrightarrow> (if is_ok x then \<exists>m. mnt_mountPoint m = p \<and> ms' = ms @ [m] else ms' = ms)"

definition host_event :: "'w Env \<Rightarrow> string set \<Rightarrow> mount list \<Rightarrow> call \<Rightarrow> mount list \<Rightarrow> bool" where
  "host_event env busy ms ev ms' \<longleftrightarrow> (case ev of
     CRun args x \<Rightarrow>
       (args = list_command env \<longrightarrow> (\<exists>table. (\<forall>m \<in> set table. konlets env m \<or> renderable m) \<and> ms = filter (konlets env) table \<and> x = Ok (mount_table table)) \<and> ms' = ms)
     \<and> (\<forall>mnt. args = umount_command env mnt \<and> konlets env mnt \<longrightarrow> umount_effect busy (mnt_mountPoint mnt) ms x ms')
     \<and> (\<forall>mnt. args = mount_command env mnt \<and> konlets env mnt \<longrightarrow> mount_effect (mnt_mountPoint mnt) ms x ms')
     \<and> ((\<forall>mnt. konlets env mnt \<longrightarrow> args \<noteq> umount_command env mnt \<and> args \<noteq> mount_command env mnt) \<longrightarrow> ms' = ms)
   | _ \<Rightarrow> ms' = ms)"

fun host_run :: "'w Env \<Rightarrow> string set \<Rightarrow> mount list \<Rightarrow> call list \<Rightarrow> mount list \<Rightarrow> bool" where
  "host_run env busy ms [] ms' \<longleftrightarrow> ms' = ms"
| "host_run env busy ms (ev # evs) ms' \<longleftrightarrow> (\<exists>ms1. host_event env busy ms ev ms1 \<and> host_run env busy ms1 evs ms')"

lemma host_run_append: "host_run env busy ms (a @ b) ms' \<longleftrightarrow> (\<exists>ms1. host_run env busy ms a ms1 \<and> host_run env busy ms1 b ms')"
  by (induction a arbitrary: ms) auto

lemma commands_differ [simp]:
  "umount_command env mnt \<noteq> mount_command env mnt'" "umount_command env mnt \<noteq> list_command env"
  "mount_command env mnt \<noteq> list_command env" "mount_command env mnt' \<noteq> umount_command env mnt"
  "list_command env \<noteq> umount_command env mnt" "list_command env \<noteq> mount_command env mnt"
  by (auto simp: umount_command_def mount_command_def list_command_def)

lemma umount_point: "umount_command env mnt = umount_command env mnt' \<Longrightarrow> mnt_mountPoint mnt = mnt_mountPoint mnt'"
  by (simp add: umount_command_def)

lemma host_umount:
  "konlets env mnt \<Longrightarrow> host_event env busy ms (CRun (umount_command env mnt) x) ms' \<Longrightarrow> umount_effect busy (mnt_mountPoint mnt) ms x ms'"
  by (auto simp: host_event_def)

lemma host_mount:
  "konlets env mnt \<Longrightarrow> host_event env busy ms (CRun (mount_command env mnt) x) ms' \<Longrightarrow> mount_effect (mnt_mountPoint mnt) ms x ms'"
  by (auto simp: host_event_def)

lemma host_list:
  assumes "host_event env busy ms (CRun (list_command env) x) ms'"
  shows "ms' = ms \<and> (\<exists>table. (\<forall>m \<in> set table. konlets env m \<or> renderable m) \<and> ms = filter (konlets env) table \<and> x = Ok (mount_table table))"
  using assms by (auto simp: host_event_def)

text \<open>Calls that are no mounts or unmounts leave the mounts alone.\<close>

definition mounts_call :: "'w Env \<Rightarrow> call \<Rightarrow> bool" where
  "mounts_call env ev \<longleftrightarrow> (\<exists>mnt x. ev = CRun (umount_command env mnt) x \<or> ev = CRun (mount_command env mnt) x)"

lemma host_other: "\<not> mounts_call env ev \<Longrightarrow> host_event env busy ms ev ms' \<Longrightarrow> ms' = ms"
  by (auto simp: host_event_def mounts_call_def split: call.splits)

lemma host_run_other: "\<forall>ev \<in> set evs. \<not> mounts_call env ev \<Longrightarrow> host_run env busy ms evs ms' \<Longrightarrow> ms' = ms"
proof (induction evs arbitrary: ms)
  case (Cons ev evs)
  then obtain ms1 where "host_event env busy ms ev ms1" "host_run env busy ms1 evs ms'" by auto
  with Cons host_other [of env ev busy ms ms1] show ?case by simp
qed simp

section \<open>Unmounting on a faithful host\<close>

text \<open>
  The loop: it works through the mounts listed before it started. A point with several mounts is
  unmounted as often as it is listed, so nothing but busy points is left.
\<close>

lemma unmount_all:
  assumes "length outs = length ys" and "\<forall>y \<in> set ys. konlets env y"
    and "host_run env busy ms (map2 (\<lambda>mnt x. CRun (umount_command env mnt) x) ys outs) ms'"
    and "\<forall>p. p \<notin> busy \<longrightarrow> mounts_at p ms = mounts_at p ys"
    and "\<forall>y \<in> set ys. mounted_at (mnt_mountPoint y) ms"
  shows "ms' = filter (\<lambda>m. mnt_mountPoint m \<in> busy) ms
    \<and> (\<forall>(y, x) \<in> set (zip ys outs). if mnt_mountPoint y \<in> busy then \<exists>e. x = Err e else is_ok x)"
  using assms
proof (induction ys arbitrary: outs ms)
  case Nil
  have "mnt_mountPoint m \<in> busy" if "m \<in> set ms" for m
  proof (rule ccontr)
    assume "mnt_mountPoint m \<notin> busy"
    then have "mounts_at (mnt_mountPoint m) ms = 0" using Nil.prems(4) by simp
    with that show False using mounted_at_iff [of "mnt_mountPoint m" ms] by auto
  qed
  then have "filter (\<lambda>m. mnt_mountPoint m \<in> busy) ms = ms" by (simp add: filter_id_conv)
  with Nil.prems(3) show ?case by simp
next
  case (Cons y ys)
  obtain x xs where outs: "outs = x # xs" using Cons.prems(1) by (cases outs) auto
  let ?p = "mnt_mountPoint y"
  obtain ms1 where ev: "host_event env busy ms (CRun (umount_command env y) x) ms1"
    and rest: "host_run env busy ms1 (map2 (\<lambda>mnt x. CRun (umount_command env mnt) x) ys xs) ms'"
    using Cons.prems(3) by (auto simp: outs)
  have "konlets env y" "mounted_at ?p ms" using Cons.prems(2,5) by auto
  with host_umount [OF _ ev] have effect: "if ?p \<in> busy then (\<exists>e. x = Err e) \<and> ms1 = ms else is_ok x \<and> ms1 = unmounted ?p ms"
    by (simp add: umount_effect_def)
  have counts: "\<forall>p. p \<notin> busy \<longrightarrow> mounts_at p ms1 = mounts_at p ys"
    using Cons.prems(4) effect by (auto simp: mounts_at_unmounted split: if_splits)
  have points: "\<forall>z \<in> set ys. mounted_at (mnt_mountPoint z) ms1"
  proof
    fix z assume z: "z \<in> set ys"
    show "mounted_at (mnt_mountPoint z) ms1"
    proof (cases "mnt_mountPoint z \<in> busy")
      case True
      have "mounted_at (mnt_mountPoint z) ms" using Cons.prems(5) z by simp
      with True effect show ?thesis by (auto simp: mounted_at_iff mounts_at_unmounted split: if_splits)
    next
      case False
      with counts have "mounts_at (mnt_mountPoint z) ms1 = mounts_at (mnt_mountPoint z) ys" by simp
      moreover have "mounted_at (mnt_mountPoint z) ys" using z by auto
      ultimately show ?thesis by (simp only: mounted_at_iff)
    qed
  qed
  have "filter (\<lambda>m. mnt_mountPoint m \<in> busy) ms1 = filter (\<lambda>m. mnt_mountPoint m \<in> busy) ms"
    using effect filter_unmounted [of ?p "\<lambda>m. mnt_mountPoint m \<in> busy" ms] by (auto split: if_splits)
  with Cons.IH [OF _ _ rest counts points] Cons.prems(1,2) effect outs show ?case
    by (auto split: if_splits)
qed

lemma listed_mounts:
  assumes "\<forall>m \<in> set table. renderable m"
  shows "konlet_mounts (env_mountedVolumesPathPrefix env) (fst (scan_lines (mount_table table))) = filter (konlets env) table"
  using scan_table [OF assms, of "[]"] konlet_mounts_render [of table] assms
  by (simp add: renderable_def konlets_def [abs_def])

lemma failed_unmounts_Nil:
  "length outs = length ms \<Longrightarrow> failed_unmounts (zip ms outs) = [] \<longleftrightarrow> (\<forall>(m, x) \<in> set (zip ms outs). \<forall>e. x \<noteq> Err e)"
  by (induction outs ms rule: list_induct2) (auto simp: failed_unmounts_def split: outcome.splits)

lemma unmount_trace_host:
  assumes "unmount_trace env evs r" and "host_run env busy ms evs ms'" and fits: "\<forall>m \<in> set ms. renderable m"
  shows "ms' = filter (\<lambda>m. mnt_mountPoint m \<in> busy) ms \<and> (r = Ok () \<longleftrightarrow> ms' = [])"
  using assms(1) unfolding unmount_trace_def Let_def
proof (elim disjE exE conjE)
  fix e assume "evs = [CRun (list_command env) (Err e)]"
  with assms(2) have False by (auto dest: host_list)
  then show ?thesis ..
next
  fix content outs
  let ?ys = "konlet_mounts (env_mountedVolumesPathPrefix env) (fst (scan_lines content))"
  assume len: "length outs = length ?ys"
    and evs: "evs = CRun (list_command env) (Ok content) # map2 (\<lambda>mnt x. CRun (umount_command env mnt) x) ?ys outs"
    and r: "r = (case failed_unmounts (zip ?ys outs) of [] \<Rightarrow> Ok () | msgs \<Rightarrow> Err (ErrorString (Join msgs [newline])))"
  from assms(2) evs obtain ms1 where ev: "host_event env busy ms (CRun (list_command env) (Ok content)) ms1"
    and rest: "host_run env busy ms1 (map2 (\<lambda>mnt x. CRun (umount_command env mnt) x) ?ys outs) ms'" by auto
  from host_list [OF ev] obtain table where "\<forall>m \<in> set table. konlets env m \<or> renderable m" "ms = filter (konlets env) table" "content = mount_table table"
    and same: "ms1 = ms" by auto
  moreover with fits have "\<forall>m \<in> set table. renderable m" by auto
  ultimately have ys: "?ys = ms" and under: "\<forall>m \<in> set ms. konlets env m" by (simp_all add: listed_mounts)
  have all: "ms' = filter (\<lambda>m. mnt_mountPoint m \<in> busy) ms
      \<and> (\<forall>(y, x) \<in> set (zip ms outs). if mnt_mountPoint y \<in> busy then \<exists>e. x = Err e else is_ok x)"
    using unmount_all [of outs ms env busy ms ms'] len under rest same unfolding ys by auto
  have "r = Ok () \<longleftrightarrow> (\<forall>(m, x) \<in> set (zip ms outs). \<forall>e. x \<noteq> Err e)"
    using failed_unmounts_Nil [of outs ms] len unfolding r ys by (cases "failed_unmounts (zip ms outs)") auto
  also have "\<dots> \<longleftrightarrow> (\<forall>(m, x) \<in> set (zip ms outs). mnt_mountPoint m \<notin> busy)"
    using all by (fastforce split: if_splits)
  also have "\<dots> \<longleftrightarrow> (\<forall>m \<in> set ms. mnt_mountPoint m \<notin> busy)"
    using len unfolding ys by (metis (no_types, lifting) case_prodI2 case_prodD in_set_impl_in_set_zip1 set_zip_leftD)
  finally show ?thesis using all by (auto simp: filter_empty_conv)
qed

section \<open>Preparing volumes on a faithful host\<close>

text \<open>Where a volume is mounted.\<close>

definition declared_points :: "'w Env \<Rightarrow> Volume \<Rightarrow> string list" where
  "declared_points env v =
     (case vol_GcePersistentDisk v of
        Some pd \<Rightarrow> [new_mount_path env ''gce-persistent-disk'' (PdName pd)]
      | None \<Rightarrow> (case vol_EmptyDir v of Some ed \<Rightarrow> [new_mount_path env ''tmpfs'' (vol_Name v)] | None \<Rightarrow> []))"

lemma konlets_new:
  "konlets env (pd_mount env pd ro)" "konlets env (tmpfs_mount env name)"
  by (simp_all add: konlets_def mount_points_have_prefix)

lemma inspecting_calls_no_mount [simp]:
  "\<not> mounts_call env (CRun (lsblk_command env property dev) x)" "\<not> mounts_call env (CRun (fs_tool found dev) x)"
  "\<not> mounts_call env (CStat p y)" "\<not> mounts_call env (CMkdirAll p m z)" "\<not> mounts_call env (CDisks d)"
  by (auto simp: mounts_call_def lsblk_command_def fs_tool_def umount_command_def mount_command_def wrap_heads split: if_splits)

lemma host_mounted:
  assumes "host_run env busy ms (quiet @ [CRun (mount_command env mnt) (Ok out)]) ms'"
    and "\<forall>ev \<in> set quiet. \<not> mounts_call env ev" and "konlets env mnt"
  shows "map mnt_mountPoint ms' = map mnt_mountPoint ms @ [mnt_mountPoint mnt]"
proof -
  from assms(1) obtain ms1 where "host_run env busy ms quiet ms1" and ev: "host_event env busy ms1 (CRun (mount_command env mnt) (Ok out)) ms'"
    by (auto simp: host_run_append)
  with host_run_other [OF assms(2)] have "ms1 = ms" by blast
  with host_mount [OF assms(3) ev] show ?thesis by (auto simp: mount_effect_def)
qed

lemma volume_run_host:
  assumes run: "volume_run env wants disks v hp evs" and host: "host_run env busy ms evs ms'"
  shows "map mnt_mountPoint ms' = map mnt_mountPoint ms @ declared_points env v"
proof -
  consider h where "vol_HostPath v = Some h" "vol_EmptyDir v = None" "vol_GcePersistentDisk v = None"
    | ed where "vol_HostPath v = None" "vol_EmptyDir v = Some ed" "vol_GcePersistentDisk v = None"
    | pd where "vol_HostPath v = None" "vol_EmptyDir v = None" "vol_GcePersistentDisk v = Some pd"
    using run unfolding volume_run_def by (auto split: option.splits)
  then show ?thesis
  proof cases
    case 1
    with run host show ?thesis by (simp add: volume_run_def declared_points_def)
  next
    case 2
    with run obtain out path where "evs = [CMkdirAll path 493 (Ok ())] @ [CRun (mount_command env (tmpfs_mount env (vol_Name v))) (Ok out)]"
      by (auto simp: volume_run_def)
    from host_mounted [OF host [unfolded this] _ konlets_new(2)] 2 show ?thesis by (simp add: declared_points_def tmpfs_mount_def)
  next
    case 3
    with run obtain ro where "pd_mounted env pd wants ro hp evs" by (auto simp: volume_run_def)
    then obtain info out fs out' where evs: "evs = (CStat (pd_device pd) (Ok (Some info)) # CRun (lsblk_command env ''MOUNTPOINT'' (pd_device pd)) (Ok out) #
          fs @ [CMkdirAll (mnt_mountPoint (pd_mount env pd (ro \<or> \<not> wants))) 493 (Ok ())]) @ [CRun (mount_command env (pd_mount env pd (ro \<or> \<not> wants))) (Ok out')]"
      and fs: "if ro then fs = [] else prepared_fs env (pd_device pd) fs"
      unfolding pd_mounted_def Let_def by auto
    have "\<forall>ev \<in> set fs. \<not> mounts_call env ev"
      using fs by (auto simp: prepared_fs_def fs_attempt_def split: if_splits)
    with host_mounted [OF host [unfolded evs] _ konlets_new(1)] 3 show ?thesis by (simp add: declared_points_def pd_mount_def)
  qed
qed

lemma volumes_prepared_host:
  assumes "volumes_prepared env wants vs m evs" and "host_run env busy ms evs ms'"
  shows "map mnt_mountPoint ms' = map mnt_mountPoint ms @ concat (map (declared_points env) vs)"
proof -
  have runs: "map mnt_mountPoint ms' = map mnt_mountPoint ms @ concat (map (declared_points env) vs)"
    if "list_all2 (\<lambda>v (hp, t). \<exists>w. map_get wants (vol_Name v) = Some w \<and> volume_run env w disks v hp t) vs runs"
      "host_run env busy ms (concat (map snd runs)) ms'" for disks runs
    using that
  proof (induction vs runs arbitrary: ms rule: list_all2_induct)
    case (Cons v vs run runs)
    obtain hp t where run: "run = (hp, t)" by (cases run)
    with Cons.hyps(1) obtain w where v: "volume_run env w disks v hp t" by auto
    from Cons.prems run obtain ms1 where "host_run env busy ms t ms1" and rest: "host_run env busy ms1 (concat (map snd runs)) ms'"
      by (auto simp: host_run_append)
    with volume_run_host [OF v] Cons.IH [OF rest] show ?case by simp
  qed simp
  from assms show ?thesis
    unfolding volumes_prepared_def by (auto dest!: host_other [OF inspecting_calls_no_mount(5)] intro: runs)
qed

lemma pull_clean_no_mount:
  "pull_trace img auth evs r \<Longrightarrow> \<forall>ev \<in> set evs. \<not> mounts_call env ev"
  "cleanup_trace raw evs r \<Longrightarrow> \<forall>ev \<in> set evs. \<not> mounts_call env ev"
  by (auto simp: pull_trace_def cleanup_trace_def mounts_call_def Let_def dest!: script_entries)

lemma creation_host:
  assumes "creation env auth spec i evs" and host: "host_run env busy ms evs ms'" and fits: "\<forall>m \<in> set ms. renderable m"
  shows "map mnt_mountPoint ms' = map mnt_mountPoint (filter (\<lambda>m. mnt_mountPoint m \<in> busy) ms) @ concat (map (declared_points env) (Volumes spec))"
proof -
  from assms(1) obtain c :: Container and pull clean unm x prep create wants m where
    pull: "pull_trace (ct_Image c) auth pull (Ok ())" and clean: "cleanup_trace (ct_Name c) clean (Ok ())"
    and unm: "unmount_trace env unm x" and prep: "volumes_prepared env wants (Volumes spec) m prep"
    and evs: "evs = pull @ clean @ unm @ prep @ [create]" and "\<exists>cfg hc name y. create = CContainerCreate cfg hc name y"
    unfolding creation_def preparation_def by (elim exE conjE) blast
  then have create: "\<not> mounts_call env create" by (auto simp: mounts_call_def)
  from host evs obtain ms0 ms1 ms2 ms3 where h0: "host_run env busy ms pull ms0" "host_run env busy ms0 clean ms1" and h: "host_run env busy ms1 unm ms2" "host_run env busy ms2 prep ms3"
    "host_event env busy ms3 create ms'"
    by (auto simp: host_run_append)
  from host_run_other [OF pull_clean_no_mount(1) [OF pull] h0(1)] host_run_other [OF pull_clean_no_mount(2) [OF clean] h0(2)]
  have "ms1 = ms" by simp
  with unmount_trace_host [OF unm h(1)] fits have "ms2 = filter (\<lambda>m. mnt_mountPoint m \<in> busy) ms" by simp
  with volumes_prepared_host [OF prep h(2)] host_other [OF create h(3)] show ?thesis by simp
qed

end
