(* ===== verification/Host_Run.thy ===== *)
theory Host_Run
  imports Host_Mounts Liveness Mock_Soundness
begin

text \<open>
  A host is faithful if its commands mount, unmount and list as they should. On such a host the calls of
  the program account for the mounts it leaves behind: what the trace theorems say of the calls becomes a
  theorem about the mounts. After a startup that succeeded they are those of the declaration, whatever
  an earlier run left.
\<close>

section \<open>Faithful hosts\<close>

text \<open>
  \<open>table\<close> reads konlet's mounts off the world. Commands change them as said above; creating
  directories, looking at files, writing the script, requests to the metadata server and the Docker engine
  leave them alone.
\<close>

definition same_mounts :: "('w \<Rightarrow> mount list) \<Rightarrow> ('w \<Rightarrow> 'b \<times> 'w) \<Rightarrow> bool" where
  "same_mounts table f \<longleftrightarrow> (\<forall>w. table (snd (f w)) = table w)"

definition exec_outcome :: "string \<times> go_error option \<Rightarrow> string outcome" where
  "exec_outcome x = (case snd x of None \<Rightarrow> Ok (fst x) | Some e \<Rightarrow> Err e)"

definition faithful_host :: "'w Env \<Rightarrow> 'w Sys \<Rightarrow> 'w DockerApiClient \<Rightarrow> ('w \<Rightarrow> mount list) \<Rightarrow> string set \<Rightarrow> bool" where
  "faithful_host env sys client table busy \<longleftrightarrow>
     (\<forall>args w. args \<noteq> [] \<longrightarrow> host_event env busy (table w) (CRun args (exec_outcome (fst (sys_Exec sys args w)))) (table (snd (sys_Exec sys args w))))
   \<and> (\<forall>path perm. same_mounts table (sys_MkdirAll sys path perm)) \<and> (\<forall>path. same_mounts table (sys_Stat sys path))
   \<and> (\<forall>req. same_mounts table (sys_HttpDo sys req)) \<and> (\<forall>b. same_mounts table (sys_ReadAll sys b))
   \<and> (\<forall>b. same_mounts table (\<lambda>w. ((), sys_Close sys b w))) \<and> (\<forall>f d perm. same_mounts table (sys_WriteFile sys f d perm))
   \<and> (\<forall>ref a. same_mounts table (ImagePull client ref a)) \<and> (\<forall>b. same_mounts table (Body_ReadAll client b))
   \<and> (\<forall>b. same_mounts table (\<lambda>w. ((), Body_Close client b w))) \<and> (\<forall>q. same_mounts table (ContainerList client q))
   \<and> (\<forall>i q. same_mounts table (ContainerRemove client i q)) \<and> (\<forall>i. same_mounts table (ContainerStart client i))
   \<and> (\<forall>cfg hc name. same_mounts table (ContainerCreate client cfg hc name))"

lemma faithful_same:
  assumes "faithful_host env sys client table busy"
  shows "same_mounts table (sys_MkdirAll sys path perm)" "same_mounts table (sys_Stat sys path)"
    "same_mounts table (sys_HttpDo sys req)" "same_mounts table (sys_ReadAll sys b)" "same_mounts table (\<lambda>w. ((), sys_Close sys b w))"
    "same_mounts table (sys_WriteFile sys f d perm)"
    "same_mounts table (ImagePull client ref a)" "same_mounts table (Body_ReadAll client b)" "same_mounts table (\<lambda>w. ((), Body_Close client b w))"
    "same_mounts table (ContainerList client q)" "same_mounts table (ContainerRemove client i q)" "same_mounts table (ContainerStart client i)"
    "same_mounts table (ContainerCreate client cfg hc name)"
  using assms by (simp_all add: faithful_host_def)

text \<open>What is wrong does not matter to the mounts.\<close>

lemma host_event_error: "host_event env busy ms (CRun args (Err e)) ms' \<Longrightarrow> host_event env busy ms (CRun args (Err e')) ms'"
proof -
  have "umount_effect busy p ms (Err e) ms' = umount_effect busy p ms (Err e') ms'"
    "mount_effect p ms (Err e) ms' = mount_effect p ms (Err e') ms'" for p :: string and busy
    by (simp_all add: umount_effect_def mount_effect_def)
  then show "host_event env busy ms (CRun args (Err e)) ms' \<Longrightarrow> host_event env busy ms (CRun args (Err e')) ms'"
    unfolding host_event_def by simp
qed

lemma host_same: "\<forall>args x. ev \<noteq> CRun args x \<Longrightarrow> host_event env busy ms ev ms' \<longleftrightarrow> ms' = ms"
  by (simp add: host_event_def split: call.split)

text \<open>The calls of a run account for the mounts it leaves behind.\<close>

definition accounted :: "'w Env \<Rightarrow> string set \<Rightarrow> ('w \<Rightarrow> mount list) \<Rightarrow> 'w st \<Rightarrow> 'w st \<Rightarrow> bool" where
  "accounted env busy table s0 s \<longleftrightarrow> (\<exists>evs. calls s = calls s0 @ evs \<and> host_run env busy (table (world s0)) evs (table (world s)))"

lemma accounted_observe:
  assumes "\<And>s. calls (snd (m s)) = calls s"
    and "\<And>s. host_event env busy (table (world s)) (ev (fst (m s))) (table (world (snd (m s))))"
  shows "preserves (accounted env busy table s0) (observe ev m)"
  unfolding preserves_def
proof (intro allI impI)
  fix s assume "accounted env busy table s0 s"
  then obtain evs where "calls s = calls s0 @ evs" "host_run env busy (table (world s0)) evs (table (world s))"
    by (auto simp: accounted_def)
  then have "calls (snd (m s)) @ [ev (fst (m s))] = calls s0 @ evs @ [ev (fst (m s))]
      \<and> host_run env busy (table (world s0)) (evs @ [ev (fst (m s))]) (table (world (snd (m s))))"
    using assms [of s] by (auto simp: host_run_append)
  then show "accounted env busy table s0 (snd (observe ev m s))"
    unfolding accounted_def observe_def by (auto split: prod.split)
qed

lemma accounted_quiet: "(\<And>s. calls (snd (m s)) = calls s \<and> world (snd (m s)) = world s) \<Longrightarrow> preserves (accounted env busy table s0) m"
  by (simp add: preserves_def accounted_def)

lemma accounted_external:
  assumes "same_mounts table f" and "\<And>args x r. ev r \<noteq> CRun args x"
  shows "preserves (accounted env busy table s0) (observe ev (external answer f))"
  by (rule accounted_observe)
    (use assms in \<open>auto simp: external_def same_mounts_def host_same split: prod.split \<close>, metis snd_conv)

text \<open>Requests to the metadata server use the primitives that leave the mounts alone.\<close>

lemma keeps_table_http:
  assumes "faithful_host env sys client table busy"
  shows "preserves (\<lambda>s. table (world s) = K) (http_Do sys req)" "preserves (\<lambda>s. table (world s) = K) (io_ReadAll sys b)"
    "preserves (\<lambda>s. table (world s) = K) (body_Close sys b)"
proof -
  have prim: "preserves (\<lambda>s. table (world s) = K) (syscall ev answer f)" if "same_mounts table f" for ev answer and f :: "'a \<Rightarrow> 'c \<times> 'a"
    using that by (auto simp: preserves_def syscall_def external_def same_mounts_def split: prod.split) (metis snd_conv)
  show "preserves (\<lambda>s. table (world s) = K) (http_Do sys req)" "preserves (\<lambda>s. table (world s) = K) (io_ReadAll sys b)"
    "preserves (\<lambda>s. table (world s) = K) (body_Close sys b)"
    unfolding http_Do_def io_ReadAll_def body_Close_def by (rule prim, rule faithful_same [OF assms])+
qed

lemma keeps_table_query:
  assumes "faithful_host env sys client table busy"
  shows "preserves (\<lambda>s. table (world s) = K) (queryMetadataServer sys url)"
  unfolding queryMetadataServer_def Let_def
  by (auto intro!: preserves_rules keeps_table_http [OF assms] split: sum.split)

lemma keeps_table_log: "preserves (\<lambda>s. table (world s) = K) (log_Printf msg)"
  by (simp add: preserves_def log_Printf_def)

lemma runner_Run_host:
  assumes "faithful_host env sys client table busy"
  shows "host_event env busy (table (world s)) (CRun args (fst (runner_Run sys args s))) (table (world (snd (runner_Run sys args s))))"
proof (cases "args = []")
  case True
  then show ?thesis
    by (auto simp: runner_Run_def host_event_def umount_command_def mount_command_def list_command_def wrapToEnterHostMountNamespace_def)
next
  case False
  obtain out e w where run: "sys_Exec sys args (world s) = ((out, e), w)" by (metis surj_pair)
  have "host_event env busy (table (world s)) (CRun args (exec_outcome (out, e))) (table w)"
    using assms False run unfolding faithful_host_def by (metis fst_conv snd_conv)
  with False run show ?thesis
    by (cases e) (auto simp: runner_Run_def bindE_def handleE_def syscall_def external_def exec_outcome_def Let_def intro: host_event_error)
qed

lemma accounted_volume_calls:
  assumes "faithful_host (production_env vflags sys parse ord) sys client table busy"
  shows "volume_invariant (production_env vflags sys parse ord) (accounted (production_env vflags sys parse ord) busy table s0)"
proof
  let ?env = "production_env vflags sys parse ord"
  fix args
  show "preserves (accounted ?env busy table s0) (call_Run (env_Runner ?env) args)"
    unfolding call_Run_def
    by (rule accounted_observe) (use runner_Run_host [OF assms] runner.Run_silent [of sys args] in \<open>simp_all add: silent_def\<close>)
  show "preserves (accounted ?env busy table s0) (call_Disks (env_Metadata ?env))"
    unfolding call_Disks_def
  proof (rule accounted_observe)
    fix s
    show "host_event ?env busy (table (world s)) (CDisks (fst (RetrieveDisksMetadataAsJson (env_Metadata ?env) s)))
        (table (world (snd (RetrieveDisksMetadataAsJson (env_Metadata ?env) s))))"
      using keeps_table_query [OF assms, of "table (world s)" DISKS_METADATA_WITH_RECURSION]
      by (simp add: host_same preserves_def defaultProvider_def)
  qed (use default_provider.Disks_silent [of sys] in \<open>simp add: silent_def\<close>)
next
  let ?env = "production_env vflags sys parse ord"
  have prims: "same_mounts table (sys_MkdirAll sys path perm)" "same_mounts table (sys_Stat sys path)" for path perm
    using assms by (simp_all add: faithful_host_def)
  fix path perm
  show "preserves (accounted ?env busy table s0) (call_MkdirAll (env_Runner ?env) path perm)"
    unfolding call_MkdirAll_def
    by (rule accounted_observe) (use prims(1) [of path perm] in \<open>auto simp: runner_MkdirAll_def syscall_def external_def same_mounts_def host_same split: prod.split\<close>, metis snd_conv)
  show "preserves (accounted ?env busy table s0) (call_Stat (env_Runner ?env) path)"
    unfolding call_Stat_def
    by (rule accounted_observe) (use prims(2) [of path] in \<open>auto simp: runner_Stat_def syscall_def external_def same_mounts_def host_same split: prod.split\<close>, metis snd_conv)
qed (rule accounted_quiet, simp add: log_Printf_def)

lemma accounted_docker:
  assumes "faithful_host env sys client table busy"
  shows "preserves (accounted env busy table s0) (pullImage client auth c)"
    "preserves (accounted env busy table s0) (deleteOldContainers ord client raw)"
    "preserves (accounted env busy table s0) (call_ContainerCreate client cfg hc name)"
    "preserves (accounted env busy table s0) (call_ContainerStart client i)"
proof -
  have log: "preserves (accounted env busy table s0) (log_Printf msg)" for msg
    by (rule accounted_quiet) (simp add: log_Printf_def)
  have calls: "preserves (accounted env busy table s0) (call_ImagePull client ref a)"
    "preserves (accounted env busy table s0) (call_ReadBody client b)" "preserves (accounted env busy table s0) (call_CloseBody client b)"
    "preserves (accounted env busy table s0) (call_ContainerList client q)"
    "preserves (accounted env busy table s0) (call_ContainerRemove client i q)" for ref a b q i
    unfolding call_ImagePull_def call_ReadBody_def call_CloseBody_def call_ContainerList_def call_ContainerRemove_def
    by (rule accounted_external, rule faithful_same [OF assms], simp)+
  show "preserves (accounted env busy table s0) (pullImage client auth c)"
    "preserves (accounted env busy table s0) (deleteOldContainers ord client raw)"
    unfolding pullImage_def deleteOldContainers_def Let_def by (auto intro!: preserves_rules log calls)
  show "preserves (accounted env busy table s0) (call_ContainerCreate client cfg hc name)"
    "preserves (accounted env busy table s0) (call_ContainerStart client i)"
    unfolding call_ContainerCreate_def call_ContainerStart_def
    by (rule accounted_external, rule faithful_same [OF assms], simp)+
qed

lemma accounted_RunContainer:
  fixes sys :: "'w Sys"
  assumes "faithful_host (production_env vflags sys parse ord) sys client table busy"
  shows "preserves (accounted (production_env vflags sys parse ord) busy table s0)
    (RunContainer (konlet_runner client vflags sys parse ord) auth spec detach)"
proof -
  let ?env = "production_env vflags sys parse ord" and ?J = "accounted (production_env vflags sys parse ord) busy table s0"
  have log: "preserves ?J (log_Printf msg)" for msg
    by (rule accounted_quiet) (simp add: log_Printf_def)
  have suf: "preserves ?J (generateRandomSuffix 4)"
  proof (rule accounted_quiet)
    fix s :: "'w st"
    obtain r s' where run: "generateRandomSuffix 4 s = (r, s')" by (cases "generateRandomSuffix 4 s")
    with generateRandomSuffix_spec(2) [OF run]
    show "calls (snd (generateRandomSuffix 4 s)) = calls s \<and> world (snd (generateRandomSuffix 4 s)) = world s" by auto
  qed
  have warn: "preserves ?J (printWarningIfLikelyHasMistake command args)" for command args
    unfolding printWarningIfLikelyHasMistake_def Let_def by (auto intro!: log preserves_basic)
  note volumes = volume_invariant.operations(5) [OF accounted_volume_calls [OF assms, of s0]]
    volume_invariant.Prepare [OF accounted_volume_calls [OF assms, of s0]]
  show ?thesis
    unfolding RunContainer_def createContainer_def finishCreation_def startContainer_def Let_def contextError_def ctx_Err_def
    by (auto intro!: preserves_rules log suf warn volumes accounted_docker [OF assms] split: option.split sum.split)
qed

section \<open>The whole program\<close>

lemma accounted_log: "preserves (accounted env busy table s0) (log_Printf msg)"
  by (rule accounted_quiet) (simp add: log_Printf_def)

text \<open>A provider that uses the primitives for requests only leaves the mounts alone.\<close>

lemma accounted_request:
  assumes "\<And>K. preserves (\<lambda>s. table (world s) = K) m" and "silent calls m" and "\<And>args x r. ev r \<noteq> CRun args x"
  shows "preserves (accounted env busy table s0) (observe ev m)"
proof (rule accounted_observe)
  fix s
  show "calls (snd (m s)) = calls s" using assms(2) by (simp add: silent_def)
  show "host_event env busy (table (world s)) (ev (fst (m s))) (table (world (snd (m s))))"
    using assms(1) [of "table (world s)"] assms(3) by (simp add: host_same preserves_def)
qed

lemma accounted_agent:
  assumes host: "faithful_host env (lib_Sys lib) client table busy"
  shows "preserves (accounted env busy table s0) (call_Manifest (defaultProvider (lib_Sys lib)))"
    "preserves (accounted env busy table s0) (retrieve_auth lower (choose_auth lib fl) img)"
    "preserves (accounted env busy table s0) (open_firewall (lib_Sys lib) enabled)"
    "preserves (accounted env busy table s0) (WriteWelcomeScript (lib_Sys lib) err)"
proof -
  show "preserves (accounted env busy table s0) (call_Manifest (defaultProvider (lib_Sys lib)))"
    unfolding call_Manifest_def
    by (rule accounted_request [OF _ default_provider.Manifest_silent]) (simp_all add: defaultProvider_def keeps_table_query [OF host])
  have "preserves (\<lambda>s. table (world s) = K) (RetrieveAuthToken (choose_auth lib fl))" for K
    unfolding choose_auth_def serviceAccountTokenProvider_def constantTokenProvider_def serviceAccount_RetrieveAuthToken_def Let_def
    by (auto intro!: preserves_rules keeps_table_http [OF host] keeps_table_log split: sum.split)
  then have "preserves (accounted env busy table s0) (call_Token (choose_auth lib fl))"
    unfolding call_Token_def by (rule accounted_request [OF _ auth_provider.Token_silent [OF choose_auth_provider]]) simp
  then show "preserves (accounted env busy table s0) (retrieve_auth lower (choose_auth lib fl) img)"
    unfolding retrieve_auth_def by (auto intro!: preserves_rules accounted_log)
  have exec: "preserves (accounted env busy table s0) (exec_CombinedOutput (lib_Sys lib) (c # cmd))"
    if "c \<in> {''iptables'', ''update-alternatives''}" for c cmd
    unfolding exec_CombinedOutput_def
  proof (rule accounted_observe)
    fix s
    have "c # cmd \<noteq> umount_command env mnt \<and> c # cmd \<noteq> mount_command env mnt" for mnt
      using that by (auto simp: umount_command_def mount_command_def wrapToEnterHostMountNamespace_def)
    then have "table (snd (sys_Exec (lib_Sys lib) (c # cmd) w)) = table w" for w
      using host unfolding faithful_host_def host_event_def by simp
    then show "host_event env busy (table (world s))
        (CExec (c # cmd) (combined_result (fst (syscall (SExec (c # cmd)) Ok (sys_Exec (lib_Sys lib) (c # cmd)) s))))
        (table (world (snd (syscall (SExec (c # cmd)) Ok (sys_Exec (lib_Sys lib) (c # cmd)) s))))"
      by (simp add: host_same syscall_def external_def split: prod.split) (metis snd_conv)
  qed (simp add: syscall_def external_def split: prod.split)
  have getenv: "preserves (accounted env busy table s0) (os_Getenv (lib_Sys lib) name)" for name
    by (rule accounted_quiet) (simp add: os_Getenv_def)
  show "preserves (accounted env busy table s0) (open_firewall (lib_Sys lib) enabled)"
    unfolding open_firewall_def InitIpTables_def OpenIptables_def OpenIptablesForProtocol_def
    by (auto intro!: preserves_rules accounted_log exec getenv split: option.split)
  have "preserves (accounted env busy table s0) (observe (CWriteFile f d perm) (external of_err (sys_WriteFile (lib_Sys lib) f d perm)))" for f d perm
    by (rule accounted_external, rule faithful_same [OF host], simp)
  then show "preserves (accounted env busy table s0) (WriteWelcomeScript (lib_Sys lib) err)"
    unfolding WriteWelcomeScript_def saveScriptToFile_def realFileWriter_def realLogger_def Let_def
    by (auto intro!: preserves_rules accounted_log)
qed

lemma accounted_startup:
  assumes "faithful_host (lib_env lib fl) (lib_Sys lib) client table busy"
  shows "preserves (accounted (lib_env lib fl) busy table s0) (lib_startup lib fl client)"
  unfolding ExecStartup_def launch_def
  by (auto intro!: preserves_rules accounted_log accounted_agent [OF assms] accounted_RunContainer [OF assms] split: sum.split)

text \<open>The runner of the program has the client that \<open>newClient\<close> made.\<close>

lemma default_runner_client:
  assumes "default_runner lib fl s = (Ok runner, s')"
  shows "\<exists>client. lib_NewClient lib DOCKER_UNIX_SOCKET = Inr client \<and> runner = lib_runner lib fl client"
  using assms
  by (cases "lib_NewClient lib DOCKER_UNIX_SOCKET")
    (auto simp: default_runner_def GetDefaultRunner_def bindE_def seqE_def handleE_def seed_rng_def split: prod.splits outcome.splits)

lemma accounted_default_runner:
  assumes "faithful_host (lib_env lib fl) (lib_Sys lib) client table busy"
  shows "preserves (accounted (lib_env lib fl) busy table s0) (default_runner lib fl)"
proof -
  have "preserves (accounted (lib_env lib fl) busy table s0) (os_Hostname (lib_Sys lib))"
    "preserves (accounted (lib_env lib fl) busy table s0) (seed_rng numbers)" for numbers
    by (rule accounted_quiet, simp add: os_Hostname_def seed_rng_def)+
  moreover have "preserves (accounted (lib_env lib fl) busy table s0) (call_Run (commandRunner (lib_Sys lib)) args)" for args
    using volume_invariant.Run [OF accounted_volume_calls [OF assms]] by simp
  ultimately show ?thesis
    unfolding default_runner_def GetDefaultRunner_def by (auto intro!: preserves_rules preserves_lift_result)
qed

lemma accounted_success:
  assumes host: "\<And>client. lib_NewClient lib DOCKER_UNIX_SOCKET = Inr client \<Longrightarrow> faithful_host (lib_env lib fl) (lib_Sys lib) client table busy"
    and fl: "flag_Parse args default_flags = Inr fl" and run: "main lib args s = (Exited 0, s')"
  shows "accounted (lib_env lib fl) busy table s s'"
proof -
  let ?J = "accounted (lib_env lib fl) busy table s"
  obtain s1 where body: "main_body lib fl (greeted s) = (Ok (), s1)" and s': "s' = snd (exitHandler lib fl (Ok ()) s1)"
    by (rule main_ends_by [OF fl run]) (auto elim: ended.cases)
  then obtain runner s2 where runner: "default_runner lib fl (greeted s) = (Ok runner, s2)"
    and startup: "handleE (ExecStartup lib (runDetachedFlag fl) (defaultProvider (lib_Sys lib)) (choose_auth lib fl) runner (openIptables fl))
      (\<lambda>err. log_Panicf (''Error: '' @ Error err)) returnE s2 = (Ok (), s1)"
    unfolding main_body_def Let_def
    by (cases "default_runner lib fl (greeted s)"; cases "fst (default_runner lib fl (greeted s))")
      (auto simp: handleE_def log_Panicf_def seqE_def log_Printf_def)
  from default_runner_client [OF runner] obtain client where client: "lib_NewClient lib DOCKER_UNIX_SOCKET = Inr client"
    and made: "runner = lib_runner lib fl client" by blast
  note faithful = host [OF client]
  have "?J (greeted s)" by (simp add: accounted_def greeted_def exI [of _ "[]"])
  then have "?J s2" by (rule preservesD [OF accounted_default_runner [OF faithful] _ runner])
  moreover have panic: "preserves ?J (log_Panicf msg)" for msg
    unfolding log_Panicf_def by (intro preserves_rules accounted_log)
  have "preserves ?J (handleE (lib_startup lib fl client) (\<lambda>err. log_Panicf (''Error: '' @ Error err)) returnE)"
    by (intro preserves_rules accounted_startup [OF faithful] panic)
  ultimately have "?J s1" using startup made by (auto dest: preservesD)
  then show ?thesis
    using accounted_agent(4) [OF faithful, of s] by (auto simp: s' exitHandler_def Let_def preserves_def)
qed

text \<open>The trace of a program that exits with status 0, and what it makes of the mounts.\<close>

lemma main_success_trace:
  assumes "valid_order (lib_Order lib)" and fl: "flag_Parse args default_flags = Inr fl" and run: "main lib args s = (Exited 0, s')"
  obtains boot work final where "calls s' = calls s @ CRun [''who'', ''-b''] (Ok boot) # work @ final"
    and "started lib (openIptables fl) (lib_env lib fl) work" and "welcome_calls fl WELCOME_SCRIPT_ON_SUCCESS final"
proof -
  obtain s1 where body: "main_body lib fl (greeted s) = (Ok (), s1)" and s': "s' = snd (exitHandler lib fl (Ok ()) s1)"
    by (rule main_ends_by [OF fl run]) (auto elim: ended.cases)
  have order: "valid_order (env_Order (lib_env lib fl))" using assms(1) by simp
  have "emits calls (lib_startup lib fl client) (good_or_bad (\<lambda>_. started lib (openIptables fl) (lib_env lib fl)) not_started)"
    for client by (rule production_agent.emits_ExecStartup [OF order]) simp
  from emits_body_spec [OF this] body obtain evs where "calls s1 = calls (greeted s) @ evs"
    and "body_spec (started lib (openIptables fl) (lib_env lib fl)) not_started evs (Ok ())" by (rule emitsE)
  moreover obtain final where "calls s' = calls s1 @ final" "welcome_calls fl WELCOME_SCRIPT_ON_SUCCESS final"
    using exitHandler_calls [of lib fl "Ok ()" s1] unfolding s' by auto
  ultimately show ?thesis using that by (auto simp: body_spec_def)
qed

lemma started_host:
  assumes "started lib openIpt env work" and "host_run env busy ms work ms'" and fits: "\<forall>m \<in> set ms. renderable m"
  shows "\<exists>body decl. CManifest (Ok body) \<in> set work \<and> lib_Declaration lib body = Inr decl
    \<and> map mnt_mountPoint ms' = map mnt_mountPoint (filter (\<lambda>m. mnt_mountPoint m \<in> busy) ms) @ concat (map (declared_points env) (Volumes (Spec decl)))"
proof -
  obtain body decl auth i tok fw pre where decl: "lib_Declaration lib body = Inr decl"
    and pre: "creation env auth (Spec decl) i pre"
    and first: "\<exists>lower img enabled. authorization lower img auth tok \<and> firewall_opened enabled fw"
    and work: "work = (CManifest (Ok body) # tok @ fw) @ pre @ [CContainerStart i (Ok ())]"
    using assms(1) unfolding started_def launched_def by (simp only: append_Cons append_assoc) blast
  have "\<forall>ev \<in> set (CManifest (Ok body) # tok @ fw). \<not> mounts_call env ev"
    using first by (auto simp: authorization_def firewall_opened_def mounts_call_def dest: exec_entries exec_entries1 split: if_splits)
  moreover obtain ms1 ms2 where h: "host_run env busy ms (CManifest (Ok body) # tok @ fw) ms1" "host_run env busy ms1 pre ms2"
    "host_run env busy ms2 [CContainerStart i (Ok ())] ms'"
    using assms(2) unfolding work host_run_append by blast
  ultimately have "ms1 = ms" using host_run_other by blast
  moreover have "ms' = ms2" using h(3) by (simp add: host_same)
  ultimately show ?thesis using creation_host [OF pre h(2)] fits decl work by auto
qed

section \<open>A host in memory\<close>

text \<open>
  A host whose world is its list of mounts: \<open>mount\<close> adds one and \<open>umount\<close> takes one away, and
  nothing fails. It reads a command line back into what it is about.
\<close>

definition as_mount :: "string list \<Rightarrow> mount" where
  "as_mount args = \<lparr>mnt_device = rev args ! 1, mnt_mountPoint = rev args ! 0, mnt_fsType = rev args ! 2,
     mnt_options = (if length args = 8 then [] else rev args ! 4)\<rparr>"

abbreviation konlet_table :: "mount list \<Rightarrow> mount list" where
  "konlet_table \<equiv> filter (konlets idle_env)"

definition memory_exec :: "string list \<Rightarrow> mount list \<Rightarrow> (string \<times> go_error option) \<times> mount list" where
  "memory_exec args ms =
     (let mnt = as_mount args in
      if args = list_command idle_env then ((mount_table (konlet_table ms), None), ms)
      else if args = umount_command idle_env mnt then (([], None), unmounted (mnt_mountPoint mnt) ms)
      else if args = mount_command idle_env mnt \<and> konlets idle_env mnt then (([], None), ms @ [mnt])
      else (([], None), ms))"

definition memory_sys :: "mount list Sys" where
  "memory_sys = \<lparr>sys_Exec = memory_exec, sys_MkdirAll = (\<lambda>path perm w. (None, w)),
     sys_Stat = (\<lambda>path w. (Inr \<lparr>fi_Name = path, fi_Size = 0, fi_Mode = ModeDevice\<rparr>, w)),
     sys_Getenv = (\<lambda>name w. ''nf_tables''), sys_Hostname = (\<lambda>w. Inr ''vm''),
     sys_NewRequest = (\<lambda>m url. Inr \<lparr>req_Method = m, req_URL = url, req_Header = []\<rparr>),
     sys_HttpDo = (\<lambda>req w. (Inr \<lparr>resp_StatusCode = 200, resp_Status = ''200 OK'', resp_Body = 0\<rparr>, w)),
     sys_ReadAll = (\<lambda>b w. (Inr idle_body, w)), sys_Close = (\<lambda>b w. w), sys_WriteFile = (\<lambda>f d perm w. (None, w))\<rparr>"

definition memory_docker :: "mount list DockerApiClient" where
  "memory_docker = \<lparr>ImagePull = (\<lambda>ref a w. (Inr 7, w)), Body_ReadAll = (\<lambda>b w. (Inr [], w)), Body_Close = (\<lambda>b w. w),
     ContainerCreate = (\<lambda>cfg hc name w. (Inr ''new'', w)), ContainerStart = (\<lambda>i w. (None, w)),
     ContainerList = (\<lambda>q w. (Inr [], w)), ContainerRemove = (\<lambda>i q w. (None, w))\<rparr>"

abbreviation memory_env :: "mount list Env" where
  "memory_env \<equiv> production_env default_volume_flags memory_sys (Unmarshal_disks idle_errors) (\<lambda>ks. ks)"

lemma memory_commands:
  "konlets memory_env = konlets idle_env" "list_command memory_env = list_command idle_env"
  "umount_command memory_env = umount_command idle_env" "mount_command memory_env = mount_command idle_env"
  by (auto simp: fun_eq_iff konlets_def list_command_def umount_command_def mount_command_def wrapToEnterHostMountNamespace_def)

lemma as_mount_command:
  "as_mount (mount_command idle_env mnt) = mnt"
  "mnt_mountPoint (as_mount (umount_command idle_env mnt)) = mnt_mountPoint mnt"
  by (auto simp: as_mount_def mount_command_def umount_command_def wrapToEnterHostMountNamespace_def default_volume_flags_def default_hostProcPath_def)

lemma umount_command_point:
  "umount_command idle_env mnt = umount_command idle_env mnt' \<longleftrightarrow> mnt_mountPoint mnt = mnt_mountPoint mnt'"
  by (auto simp: umount_command_def)

lemma unmounted_absent: "\<not> mounted_at p ms \<Longrightarrow> unmounted p ms = ms"
  by (induction p ms rule: unmounted.induct) auto

lemma konlets_point: "mnt_mountPoint m = mnt_mountPoint m' \<Longrightarrow> konlets env m = konlets env m'"
  by (simp add: konlets_def)

lemma konlet_table_unmounted:
  "konlets idle_env mnt \<Longrightarrow> konlet_table (unmounted (mnt_mountPoint mnt) ms) = unmounted (mnt_mountPoint mnt) (konlet_table ms)"
proof (induction "mnt_mountPoint mnt" ms rule: unmounted.induct)
  case (2 m ms)
  have "mounted_at (mnt_mountPoint mnt) (konlet_table ms) \<longleftrightarrow> mounted_at (mnt_mountPoint mnt) ms"
    using 2(2) konlets_point [of mnt] by (force simp: image_iff)
  moreover have "mnt_mountPoint m = mnt_mountPoint mnt \<Longrightarrow> konlets idle_env m" using 2(2) by (simp add: konlets_def)
  ultimately show ?case using 2 by (cases "mnt_mountPoint m = mnt_mountPoint mnt") simp_all
qed simp

lemma last_commands: "last (mount_command env mnt) = mnt_mountPoint mnt" "last (umount_command env mnt) = mnt_mountPoint mnt"
  by (simp_all add: mount_command_def umount_command_def wrapToEnterHostMountNamespace_def)

lemma host_umountI:
  "umount_effect busy (mnt_mountPoint mnt) ms x ms' \<Longrightarrow> konlets env mnt \<Longrightarrow> host_event env busy ms (CRun (umount_command env mnt) x) ms'"
  unfolding host_event_def by (auto dest: umount_point)

lemma mount_point: "mount_command env mnt = mount_command env mnt' \<Longrightarrow> mnt_mountPoint mnt = mnt_mountPoint mnt'"
  by (metis last_commands(1))

lemma host_mountI:
  "mount_effect (mnt_mountPoint mnt) ms x ms' \<Longrightarrow> konlets env mnt \<Longrightarrow> host_event env busy ms (CRun (mount_command env mnt) x) ms'"
  unfolding host_event_def by (auto dest: mount_point)

lemma host_listI:
  "\<forall>m \<in> set table. konlets env m \<or> renderable m \<Longrightarrow> ms = filter (konlets env) table \<Longrightarrow> host_event env busy ms (CRun (list_command env) (Ok (mount_table table))) ms"
  unfolding host_event_def by auto

lemma host_otherI:
  assumes "args \<noteq> list_command env" and "\<And>mnt. konlets env mnt \<Longrightarrow> args \<noteq> umount_command env mnt \<and> args \<noteq> mount_command env mnt"
  shows "host_event env busy ms (CRun args x) ms"
  using assms unfolding host_event_def by auto

lemma memory_exec_runs:
  "memory_exec (list_command idle_env) ms = ((mount_table (konlet_table ms), None), ms)"
  "memory_exec (umount_command idle_env mnt) ms = (([], None), unmounted (mnt_mountPoint mnt) ms)"
  "memory_exec (mount_command idle_env mnt) ms = (([], None), if konlets idle_env mnt then ms @ [mnt] else ms)"
  "\<forall>mnt. args \<noteq> umount_command idle_env mnt \<and> args \<noteq> mount_command idle_env mnt \<Longrightarrow> args \<noteq> list_command idle_env \<Longrightarrow> memory_exec args ms = (([], None), ms)"
  by (simp_all add: memory_exec_def Let_def as_mount_command umount_command_point)

lemma memory_exec_host:
  "host_event memory_env {} (konlet_table ms) (CRun args (exec_outcome (fst (memory_exec args ms)))) (konlet_table (snd (memory_exec args ms)))"
proof -
  consider "args = list_command idle_env"
    | mnt where "args = umount_command idle_env mnt" "konlets idle_env mnt" | mnt where "args = umount_command idle_env mnt" "\<not> konlets idle_env mnt"
    | mnt where "args = mount_command idle_env mnt"
    | "args \<noteq> list_command idle_env" "\<forall>mnt. args \<noteq> umount_command idle_env mnt \<and> args \<noteq> mount_command idle_env mnt"
    by blast
  then show ?thesis
  proof cases
    case 1
    then show ?thesis
      using host_listI [of "konlet_table ms" memory_env "konlet_table ms"]
      by (simp add: memory_exec_runs memory_commands exec_outcome_def)
  next
    case (2 mnt)
    have "umount_effect {} (mnt_mountPoint mnt) (konlet_table ms) (Ok []) (unmounted (mnt_mountPoint mnt) (konlet_table ms))"
      by (auto simp: umount_effect_def unmounted_absent)
    from host_umountI [OF this, of memory_env] 2 show ?thesis
      by (simp add: memory_exec_runs memory_commands exec_outcome_def konlet_table_unmounted)
  next
    case (3 mnt)
    then have "konlet_table (unmounted (mnt_mountPoint mnt) ms) = konlet_table ms"
      by (intro filter_unmounted) (simp add: konlets_def)
    moreover have "host_event memory_env {} (konlet_table ms) (CRun args (Ok [])) (konlet_table ms)"
      by (rule host_otherI) (use 3 konlets_point [of mnt] in \<open>auto simp: memory_commands umount_command_point\<close>)
    ultimately show ?thesis using 3 by (simp add: memory_exec_runs exec_outcome_def)
  next
    case (4 mnt)
    show ?thesis
    proof (cases "konlets idle_env mnt")
      case True
      have "mount_effect (mnt_mountPoint mnt) (konlet_table ms) (Ok []) (konlet_table ms @ [mnt])"
        by (auto simp: mount_effect_def)
      from host_mountI [OF this, of memory_env] 4 True show ?thesis by (simp add: memory_exec_runs memory_commands exec_outcome_def)
    next
      case False
      have "host_event memory_env {} (konlet_table ms) (CRun args (Ok [])) (konlet_table ms)"
        by (rule host_otherI) (use 4 False in \<open>auto simp: memory_commands dest!: arg_cong [where f = as_mount] simp: as_mount_command\<close>)
      with 4 False show ?thesis by (simp add: memory_exec_runs exec_outcome_def)
    qed
  next
    case 5
    then show ?thesis
      by (simp add: memory_exec_runs exec_outcome_def host_otherI memory_commands)
  qed
qed

lemma memory_faithful: "faithful_host memory_env memory_sys memory_docker konlet_table {}"
  using memory_exec_host by (simp add: faithful_host_def same_mounts_def memory_sys_def memory_docker_def)

lemma memory_cooperative: "cooperative memory_env [(''pd'', False)]"
proof -
  have run: "achieves (call_Run (commandRunner memory_sys) args) (lsblk_answer memory_env args)" if "args \<noteq> []" for args
  proof -
    have looks: "lsblk_command memory_env property dev \<noteq> list_command idle_env" for property dev
      by (simp add: lsblk_command_def list_command_def wrapToEnterHostMountNamespace_def)
    show ?thesis
      unfolding achieves_def
    proof
      fix s :: "mount list st"
      obtain out e w where exec: "memory_exec args (world s) = ((out, e), w)" by (metis surj_pair)
      then have "e = None" and "args \<noteq> list_command idle_env \<Longrightarrow> out = []"
        by (auto simp: memory_exec_def Let_def split: if_splits)
      then have "lsblk_answer memory_env args out" using looks by (auto simp: lsblk_answer_def Count_newlines_def)
      moreover have "sys_Exec memory_sys args (world s) = ((out, None), w)" using exec \<open>e = None\<close> by (simp add: memory_sys_def)
      ultimately show "\<exists>v s'. call_Run (commandRunner memory_sys) args s = (Ok v, s') \<and> lsblk_answer memory_env args v"
        using that by (simp add: call_Run_def observe_def runner_Run_exec run_outcome_def)
    qed
  qed
  have stat: "block_device \<lparr>fi_Name = path, fi_Size = 0, fi_Mode = ModeDevice\<rparr>" for path
    by (simp add: block_device_def device_modes)
  have "call_Disks (defaultProvider memory_sys) s = (Ok idle_body, snd (call_Disks (defaultProvider memory_sys) s))" for s
    by (simp add: call_Disks_def observe_def defaultProvider_def queryMetadataServer_def Let_def Header_Add_def
      memory_sys_def bindE_def handleE_def deferE_def http_Do_def io_ReadAll_def body_Close_def syscall_def external_def)
  then have "achieves (call_Disks (defaultProvider memory_sys)) (\<lambda>json. json = idle_body)"
    unfolding achieves_def by metis
  then have disks: "achieves (call_Disks (defaultProvider memory_sys)) (\<lambda>json. \<exists>es. Unmarshal_disks idle_errors json = Inr es \<and> disk_modes es es map_make = Inr [(''pd'', False)])"
    by (rule achieves_weaken) (simp add: idle_disks map_put_def map_make_def)
  have "achieves (call_MkdirAll (commandRunner memory_sys) path perm) (\<lambda>_. True)"
    "achieves (call_Stat (commandRunner memory_sys) path) (\<lambda>info. \<exists>i. info = Some i \<and> block_device i)" for path perm
    by (simp_all add: achieves_def call_MkdirAll_def call_Stat_def observe_def runner_MkdirAll_def runner_Stat_def syscall_def
        external_def memory_sys_def stat)
  with run disks show ?thesis by (simp add: cooperative_def)
qed

lemma memory_engine: "engine_ok memory_docker"
  by (simp add: engine_ok_def achieves_def call_ImagePull_def call_ReadBody_def call_ContainerList_def call_ContainerRemove_def
      call_ContainerCreate_def call_ContainerStart_def observe_def external_def memory_docker_def)

text \<open>The program on this host.\<close>

definition memory_lib :: "mount list Libraries" where
  "memory_lib = \<lparr>lib_Sys = memory_sys, lib_NewClient = (\<lambda>_. Inr memory_docker), lib_NewSource = (\<lambda>_. sconst 0),
     lib_Declaration = (\<lambda>_. Inr \<lparr>Spec = example_spec\<rparr>),
     lib_Json = idle_errors, lib_LowerTable = (\<lambda>r. r), lib_Order = (\<lambda>ks. ks)\<rparr>"

lemma memory_in_order: "in_order memory_lib default_flags [(''pd'', False)] example_spec"
proof -
  have lib: "lib_env memory_lib default_flags = memory_env" "lib_Sys memory_lib = memory_sys"
    by (simp_all add: memory_lib_def default_flags_def)
  have "call_Manifest (defaultProvider memory_sys) s = (Ok idle_body, snd (call_Manifest (defaultProvider memory_sys) s))" for s
    by (simp add: call_Manifest_def observe_def defaultProvider_def queryMetadataServer_def Let_def Header_Add_def
      memory_sys_def bindE_def handleE_def deferE_def http_Do_def io_ReadAll_def body_Close_def syscall_def external_def)
  then have "achieves (call_Manifest (defaultProvider memory_sys)) (\<lambda>_. True)"
    unfolding achieves_def by metis
  moreover have "snd (fst (memory_exec cmd w)) = None" for cmd w
    by (simp add: memory_exec_def Let_def)
  moreover have "\<not> UseGcpTokenForImage t (ct_Image (Containers example_spec ! 0))" for t
    by (simp add: example_spec_def example_container_def UseGcpTokenForImage_no_host)
  ultimately show ?thesis
    using memory_cooperative memory_engine valid_order_id fair_sconst unfolding in_order_def lib
    by (simp add: memory_lib_def) (simp add: memory_sys_def)
qed

section \<open>Properties\<close>

text \<open>C4. The mounts a startup leaves behind. On a host whose commands mount, unmount and list as they
  should, with mounts under konlet's prefix that the scanner can read, a program that exits with status 0
  leaves exactly the mounts of the declaration it read, one for each persistent disk and tmpfs, in the
  order of the volumes, whatever an earlier run left there; only busy ones, which \<open>umount\<close> refuses
  to give up, stay, below the new ones.\<close>

theorem main_host_mounts:
  assumes "\<And>client. lib_NewClient lib DOCKER_UNIX_SOCKET = Inr client \<Longrightarrow> faithful_host (lib_env lib fl) (lib_Sys lib) client table busy"
    and "valid_order (lib_Order lib)" and "flag_Parse args default_flags = Inr fl"
    and "\<forall>m \<in> set (table (world s)). renderable m" and "main lib args s = (Exited 0, s')"
  shows "\<exists>evs body decl. calls s' = calls s @ evs \<and> CManifest (Ok body) \<in> set evs \<and> lib_Declaration lib body = Inr decl
    \<and> map mnt_mountPoint (table (world s')) = filter (\<lambda>p. p \<in> busy) (map mnt_mountPoint (table (world s)))
        @ concat (map (declared_points (lib_env lib fl)) (Volumes (Spec decl)))"
proof -
  let ?env = "lib_env lib fl"
  obtain boot work final where trace: "calls s' = calls s @ CRun [''who'', ''-b''] (Ok boot) # work @ final"
    and started: "started lib (openIptables fl) ?env work" and final: "welcome_calls fl WELCOME_SCRIPT_ON_SUCCESS final"
    by (rule main_success_trace [OF assms(2,3,5)])
  from accounted_success [OF assms(1,3,5)] trace
  have "host_run ?env busy (table (world s)) ([CRun [''who'', ''-b''] (Ok boot)] @ work @ final) (table (world s'))"
    by (simp add: accounted_def)
  then obtain ms1 ms2 where h: "host_run ?env busy (table (world s)) [CRun [''who'', ''-b''] (Ok boot)] ms1"
    "host_run ?env busy ms1 work ms2" "host_run ?env busy ms2 final (table (world s'))"
    unfolding host_run_append by blast
  have "ms1 = table (world s)"
    by (rule host_run_other [OF _ h(1)]) (simp add: mounts_call_def umount_command_def mount_command_def wrapToEnterHostMountNamespace_def)
  moreover have "table (world s') = ms2"
    by (rule host_run_other [OF _ h(3)]) (use final in \<open>auto simp: welcome_calls_def mounts_call_def split: if_splits\<close>)
  ultimately show ?thesis
    using started_host [OF started h(2)] assms(4) trace by (auto simp: filter_map comp_def)
qed

text \<open>A leftover mount, of a volume that is no longer declared.\<close>

definition leftover :: mount where
  "leftover = \<lparr>mnt_device = ''tmpfs'', mnt_mountPoint = new_mount_path idle_env ''tmpfs'' ''old'', mnt_fsType = ''tmpfs'', mnt_options = ''rw''\<rparr>"

definition leftover_state :: "mount list st" where
  "leftover_state = \<lparr>world = [leftover], calls = [], syscalls = [], logs = [], rng = sconst 0\<rparr>"

theorem main_host_mounts_witness:
  "konlet_table (world leftover_state) = [leftover]
   \<and> (\<exists>s'. main memory_lib [] leftover_state = (Exited 0, s')
     \<and> map mnt_mountPoint (konlet_table (world s')) =
         [new_mount_path idle_env ''gce-persistent-disk'' ''pd'', new_mount_path idle_env ''tmpfs'' ''tmp''])"
proof -
  have lib: "lib_env memory_lib default_flags = memory_env" "lib_Sys memory_lib = memory_sys" "lib_Order memory_lib = (\<lambda>ks. ks)"
    "lib_NewClient memory_lib x = Inr memory_docker" "lib_Declaration memory_lib b = Inr \<lparr>Spec = example_spec\<rparr>"
    "lib_Json memory_lib = idle_errors" for x b
    by (simp_all add: memory_lib_def default_flags_def)
  have flags: "flag_Parse [] default_flags = Inr default_flags" by simp
  have table: "konlet_table (world leftover_state) = [leftover]"
    by (simp add: leftover_state_def leftover_def konlets_def new_mount_path_def HasPrefix_def)
  have fits: "renderable leftover"
    by (simp add: renderable_def leftover_def render_mount_def escape_def escape_char_def octal_defs MaxScanTokenSize_def new_mount_path_def
        default_volume_flags_def default_mountedVolumesPathPrefix_def)
  obtain s1 where "main_body memory_lib default_flags (greeted leftover_state) = (Ok (), s1)"
    using main_body_ok [OF memory_in_order example_runnable] by blast
  then obtain s' where run: "main memory_lib [] leftover_state = (Exited 0, s')"
    by (simp add: main_run flags exitHandler_def Let_def)
  have "map mnt_mountPoint (konlet_table (world s')) = concat (map (declared_points memory_env) (Volumes example_spec))"
    using main_host_mounts [of memory_lib default_flags konlet_table "{}" "[]" leftover_state s'] memory_faithful valid_order_id table fits run
    by (auto simp: lib)
  with run table show ?thesis
    by (auto simp: example_spec_def declared_points_def pd_volume_def new_mount_path_def)
qed

end
