(* ===== verification/Test_Helpers.thy ===== *)
theory Test_Helpers
  imports Effects
begin

text \<open>
  \<open>utils/testing.go\<close>: the assertions of the Go tests. They take values of any type, which are
  trees here, as far as \<open>reflect\<close> sees them: a type, a kind and a content. Floating-point numbers,
  functions and cycles, which the tests do not compare, are left out; keys of maps compare by content.
\<close>

section \<open>Values under reflection\<close>

datatype go_value =
    GoNil
  | GoBool string bool
  | GoInteger string string int
  | GoText string string
  | GoSlice string "go_value list option"
  | GoArray string "go_value list"
  | GoMap string "(go_value \<times> go_value) list option"
  | GoStruct string "go_value list"
  | GoPointer string "go_value option"
  | GoChan string nat nat

text \<open>The kind and, where it has one, the length. The nil interface has the kind \<open>invalid\<close>.\<close>

fun Kind :: "go_value \<Rightarrow> string" where
  "Kind GoNil = ''invalid''"
| "Kind (GoBool t b) = ''bool''"
| "Kind (GoInteger k t i) = k"
| "Kind (GoText t s) = ''string''"
| "Kind (GoSlice t vs) = ''slice''"
| "Kind (GoArray t vs) = ''array''"
| "Kind (GoMap t es) = ''map''"
| "Kind (GoStruct t vs) = ''struct''"
| "Kind (GoPointer t v) = ''ptr''"
| "Kind (GoChan t address n) = ''chan''"

fun Len :: "go_value \<Rightarrow> nat option" where
  "Len (GoText t s) = Some (length s)"
| "Len (GoSlice t vs) = Some (case vs of None \<Rightarrow> 0 | Some vs \<Rightarrow> length vs)"
| "Len (GoArray t vs) = Some (length vs)"
| "Len (GoMap t es) = Some (case es of None \<Rightarrow> 0 | Some es \<Rightarrow> length es)"
| "Len (GoChan t address n) = Some n"
| "Len _ = None"

text \<open>
  \<open>reflect.DeepEqual\<close>: the same type, and contents that are equal in depth. A nil slice or map
  differs from an empty one; the order of the entries of a map does not count.
\<close>

lemma size_entry: "(k, x) \<in> set es \<Longrightarrow> size x \<le> size_list (size_prod size size) es"
  by (induction es) (auto simp: le_SucI trans_le_add1)

lemma size_pair: "(x, y) \<in> set (zip xs ys) \<Longrightarrow> size x \<le> size_list size xs"
  using size_list_estimation' [OF set_zip_leftD order_refl] .

function DeepEqual :: "go_value \<Rightarrow> go_value \<Rightarrow> bool" where
  "DeepEqual (GoSlice t xs) b = (case b of GoSlice u ys \<Rightarrow> t = u \<and> (case xs of None \<Rightarrow> ys = None
     | Some xs \<Rightarrow> (case ys of None \<Rightarrow> False | Some ys \<Rightarrow> length xs = length ys \<and> list_all (\<lambda>(x, y). DeepEqual x y) (zip xs ys))) | _ \<Rightarrow> False)"
| "DeepEqual (GoArray t xs) b = (case b of GoArray u ys \<Rightarrow> t = u \<and> length xs = length ys \<and> list_all (\<lambda>(x, y). DeepEqual x y) (zip xs ys) | _ \<Rightarrow> False)"
| "DeepEqual (GoStruct t xs) b = (case b of GoStruct u ys \<Rightarrow> t = u \<and> length xs = length ys \<and> list_all (\<lambda>(x, y). DeepEqual x y) (zip xs ys) | _ \<Rightarrow> False)"
| "DeepEqual (GoMap t xs) b = (case b of GoMap u ys \<Rightarrow> t = u \<and> (case xs of None \<Rightarrow> ys = None
     | Some xs \<Rightarrow> (case ys of None \<Rightarrow> False | Some ys \<Rightarrow> length xs = length ys \<and>
         list_all (\<lambda>(k, x). case map_of ys k of None \<Rightarrow> False | Some y \<Rightarrow> DeepEqual x y) xs)) | _ \<Rightarrow> False)"
| "DeepEqual (GoPointer t x) b = (case b of GoPointer u y \<Rightarrow> t = u \<and> (case x of None \<Rightarrow> y = None
     | Some x \<Rightarrow> (case y of None \<Rightarrow> False | Some y \<Rightarrow> DeepEqual x y)) | _ \<Rightarrow> False)"
| "DeepEqual GoNil b = (b = GoNil)"
| "DeepEqual (GoBool t x) b = (b = GoBool t x)"
| "DeepEqual (GoInteger k t x) b = (b = GoInteger k t x)"
| "DeepEqual (GoText t x) b = (b = GoText t x)"
| "DeepEqual (GoChan t address n) b = (case b of GoChan u address' m \<Rightarrow> t = u \<and> address = address' | _ \<Rightarrow> False)"
  by pat_completeness auto
termination
proof (relation "measure (\<lambda>(a, b). size a)", goal_cases)
  case 1
  show ?case by simp
qed (auto dest: size_pair size_entry simp: less_Suc_eq_le intro!: le_SucI)

section \<open>Assertions\<close>

text \<open>
  A failed assertion ends the test with \<open>t.Fatal\<close>, by \<open>runtime.Goexit\<close>.
  \<open>goSyntax\<close> is the format \<open>%#v\<close>.
\<close>

definition Fatal :: "string \<Rightarrow> ('s, unit) go" where
  "Fatal msg = panicE (Goexit msg)"

definition AssertEqual :: "(go_value \<Rightarrow> string) \<Rightarrow> go_value \<Rightarrow> go_value \<Rightarrow> string \<Rightarrow> ('s, unit) go" where
  "AssertEqual goSyntax a b message =
     (if DeepEqual a b then returnE ()
      else let message = (if length message = 0
             then [CHR 0x27] @ goSyntax a @ [CHR 0x27] @ '' != '' @ [CHR 0x27] @ goSyntax b @ [CHR 0x27] else message)
           in Fatal message)"

definition AssertNoError :: "go_error option \<Rightarrow> ('s, unit) go" where
  "AssertNoError err =
     (case err of None \<Rightarrow> returnE ()
      | Some e \<Rightarrow> Fatal (''Unexpected error '' @ [CHR 0x27] @ Error e @ [CHR 0x27]))"

definition AssertError :: "go_error option \<Rightarrow> string \<Rightarrow> ('s, unit) go" where
  "AssertError err expected =
     (case err of None \<Rightarrow> Fatal ''Exected error not to be null''
      | Some e \<Rightarrow> (let message = Error e
          in if message \<noteq> expected
             then Fatal (''Exected error to be '' @ [CHR 0x27] @ expected @ [CHR 0x27] @ '', but it was ''
               @ [CHR 0x27] @ message @ [CHR 0x27])
             else returnE ()))"

text \<open>The parameter \<open>message\<close> is not used.\<close>

definition AssertEmpty :: "go_value \<Rightarrow> string \<Rightarrow> ('s, unit) go" where
  "AssertEmpty object message =
     (case Len object of
        Some len \<Rightarrow> if len \<noteq> 0
          then Fatal (''Expected an empty object, got a '' @ Kind object @ '' of length '' @ fmt_d (int len)) else returnE ()
      | None \<Rightarrow> Fatal (''Expected a container-like object, got '' @ Kind object))"

section \<open>What a passing assertion shows\<close>

definition passes :: "('s, unit) go \<Rightarrow> bool" where
  "passes m \<longleftrightarrow> (\<forall>s. m s = (Ok (), s))"

lemma passes_simps [simp]: "passes (returnE ())" "\<not> passes (Fatal msg)"
  by (simp_all add: passes_def Fatal_def)

lemma AssertEqual_passes: "passes (AssertEqual goSyntax a b message) \<longleftrightarrow> DeepEqual a b"
  by (simp add: AssertEqual_def Let_def)

lemma AssertError_passes:
  "passes (AssertNoError err) \<longleftrightarrow> err = None"
  "passes (AssertError err expected) \<longleftrightarrow> (\<exists>e. err = Some e \<and> Error e = expected)"
  by (simp_all add: AssertNoError_def AssertError_def Let_def split: option.split)

lemma AssertEmpty_passes: "passes (AssertEmpty object message) \<longleftrightarrow> Len object = Some 0"
  by (simp add: AssertEmpty_def split: option.split)

text \<open>
  Two slices of strings, and two maps whose keys are strings, the values the tests compare most, are
  equal in depth exactly if they have the same content; for maps the order of the entries does not count.
\<close>

definition text_slice :: "string list \<Rightarrow> go_value" where
  "text_slice xs = GoSlice ''[]string'' (Some (map (GoText ''string'') xs))"

lemma DeepEqual_list:
  assumes "\<And>x y. x \<in> set xs \<Longrightarrow> DeepEqual (f x) (f y) \<longleftrightarrow> x = y"
  shows "length xs = length ys \<and> list_all (\<lambda>(x, y). DeepEqual x y) (zip (map f xs) (map f ys)) \<longleftrightarrow> xs = ys"
  using assms
proof (induction xs arbitrary: ys)
  case (Cons x xs)
  then show ?case by (cases ys) auto
qed auto

lemma DeepEqual_text_slice: "DeepEqual (text_slice xs) (text_slice ys) \<longleftrightarrow> xs = ys"
  using DeepEqual_list [of xs "GoText ''string''" ys] by (auto simp: text_slice_def)

definition text_map :: "string \<Rightarrow> ('v \<Rightarrow> go_value) \<Rightarrow> (string \<times> 'v) list \<Rightarrow> go_value" where
  "text_map t f es = GoMap t (Some (map (\<lambda>(k, v). (GoText ''string'' k, f v)) es))"

lemma map_of_text: "map_of (map (\<lambda>(k, v). (GoText t k, f v)) es) (GoText t k) = map_option f (map_of es k)"
  by (induction es) auto

lemma DeepEqual_text_map:
  assumes f: "\<And>v w. DeepEqual (f v) (f w) \<longleftrightarrow> v = w" and "distinct (map fst xs)" and "distinct (map fst ys)"
  shows "DeepEqual (text_map t f xs) (text_map t f ys) \<longleftrightarrow> map_of xs = map_of ys"
proof -
  have "DeepEqual (text_map t f xs) (text_map t f ys) \<longleftrightarrow> length xs = length ys \<and> (\<forall>(k, v) \<in> set xs. map_of ys k = Some v)"
  proof -
    have "(case map_option f x of None \<Rightarrow> False | Some y \<Rightarrow> DeepEqual (f v) y) \<longleftrightarrow> x = Some v" for x v
      by (auto simp: f split: option.split)
    then show ?thesis by (simp add: text_map_def list_all_iff case_prod_unfold map_of_text [unfolded case_prod_unfold] cong: option.case_cong)
  qed
  also have "\<dots> \<longleftrightarrow> map_of xs = map_of ys"
  proof
    assume l: "length xs = length ys \<and> (\<forall>(k, v) \<in> set xs. map_of ys k = Some v)"
    then have "set xs \<subseteq> set ys" by (auto dest: map_of_SomeD)
    moreover have "card (set xs) = card (set ys)" using l assms(2,3) by (simp add: distinct_card distinct_map)
    ultimately have "set xs = set ys" by (simp add: card_subset_eq)
    then show "map_of xs = map_of ys" using map_of_inject_set [OF assms(2,3)] by simp
  next
    assume m: "map_of xs = map_of ys"
    then have "set xs = set ys" using map_of_inject_set [OF assms(2,3)] by simp
    then have "length xs = length ys" using assms(2,3) by (metis distinct_card distinct_map)
    then show "length xs = length ys \<and> (\<forall>(k, v) \<in> set xs. map_of ys k = Some v)"
      using m assms(2) by (auto simp: map_of_eq_Some_iff [symmetric])
  qed
  finally show ?thesis .
qed

end
