(* ===== verification/Spec2Isabelle.thy ===== *)
theory Spec2Isabelle
  imports Main_Program Mock_Soundness Liveness Authorized Host_Run Test_Helpers
begin

text \<open>
  A model of the konlet startup agent, the Go program under \<open>src/gce-containers-startup\<close>. On a
  virtual machine it reads a container declaration from the metadata server, opens the firewall,
  pulls the image, removes the containers of earlier runs, prepares the declared volumes on the host,
  creates and starts the container through the Docker engine, and leaves a welcome script that tells
  users whether this worked.

  \<^bold>\<open>How the code is modelled.\<close> A Go function with effects is a state transformer
  \<open>('w st, 'a) go\<close> (theory \<open>Prelude\<close>): it returns a value, returns a non-nil
  \<open>error\<close>, or unwinds the stack, and each early return of the code is a branch. The state
  (\<open>Effects\<close>) holds an arbitrary outside world, the history \<open>calls\<close> of what the core
  of the program asked of an interface or of the engine, the history \<open>syscalls\<close> of what an
  implementation of an interface did to answer, the log, and the numbers the random generator will
  still deliver. What lies outside is a parameter: the record \<open>Sys\<close> for \<open>os\<close>,
  \<open>os/exec\<close> and \<open>net/http\<close>, \<open>DockerApiClient\<close> for the Docker engine, and in
  \<open>Libraries\<close> the YAML decoder, the texts of JSON errors, the constructor of the Docker client,
  the seeded random source, the Unicode lower-case table and the order in which \<open>range\<close> visits a map.
  Theorems hold for all of these, so also for a machine where any call fails.

  \<^bold>\<open>The parts\<close>, in the order of their imports:

  \<^item> \<open>Prelude\<close>, \<open>Go_Strings\<close>, \<open>Go_Maps\<close>: control flow and rules for
    traces (\<open>emits\<close>, \<open>script\<close>, \<open>keeps\<close>); the functions of \<open>strings\<close>,
    \<open>bufio\<close>, \<open>unicode\<close> and \<open>fmt\<close> the code uses; maps behind the locale
    \<open>go_map\<close>.
  \<^item> \<open>Json_Strings\<close>, \<open>Json\<close>: \<open>encoding/json\<close> as far as used: string literals
    in both directions, with escapes, surrogates and invalid UTF-8; the grammar of values; and
    \<open>Unmarshal\<close> into structs and slices, with its rules for the names of members. What is written
    in any white space parses back (\<open>parse_json_written\<close>).
  \<^item> \<open>Api_Types\<close>: the records of \<open>types/api.go\<close> and the fields used of the Docker types.
  \<^item> \<open>Effects\<close>: the boundary, and one locale per Go interface (\<open>os_command_runner\<close>,
    \<open>metadata_provider\<close>, \<open>auth_provider\<close>), interpreted by its implementations.
  \<^item> \<open>Command_Runner\<close>: \<open>command/runner.go\<close>, and the test double
    \<open>command/mock_runner.go\<close> as a second implementation; \<open>Mock_Soundness\<close>: what its
    assertions prove about the code under test.
  \<^item> \<open>Metadata\<close>, \<open>Auth\<close>: \<open>metadata/provider.go\<close>, its stub, and
    \<open>utils/auth.go\<close>, with the exchange each has with the metadata server.
  \<^item> \<open>Mounts\<close>, \<open>Volumes\<close>, \<open>Prepare\<close>: \<open>volumes/volumes.go\<close> in
    three steps: the mount table, mounting and unmounting; the handlers of the kinds of volume and the
    disk metadata; the reference check, the loop over the volumes and the bindings. \<open>Authorized\<close>
    says what a declaration entitles the preparation to, \<open>Host_Mounts\<close> what the calls of a run do
    to the mounts of the host.
  \<^item> \<open>Registry\<close>, \<open>Iptables\<close>, \<open>Welcome\<close>: \<open>utils/registry.go\<close>,
    \<open>utils/iptables.go\<close>, \<open>utils/welcome-message.go\<close>.
  \<^item> \<open>Docker_Auth\<close>, \<open>Randomness\<close>, \<open>Containers\<close>, \<open>Runtime\<close>:
    \<open>runtime/runtime.go\<close>: the encoded credentials (JSON in base64), seed and
    names, pull and cleanup, and the creation and start of the container. \<open>Phases\<close> says what
    order the calls of a startup have.
  \<^item> \<open>Flags\<close>, \<open>Startup\<close>: \<open>gce-containers-startup.go\<close>: the command line with
    the parser of Go's \<open>flag\<close>, \<open>ExecStartup\<close> (its part after parsing is
    \<open>launch\<close>), \<open>main\<close>, and the deferred \<open>exitHandler\<close>.
  \<^item> \<open>Main_Program\<close>, \<open>Liveness\<close>, \<open>Host_Run\<close>: the theorems about the whole program:
    how it ends and the policies it keeps; that it succeeds; and the mounts it leaves behind.
  \<^item> \<open>Test_Helpers\<close>: \<open>utils/testing.go\<close>, the assertions of the Go tests, and what each
    shows when it passes.

  \<^bold>\<open>What the theorems show.\<close> Each component has a specification of the calls it makes
  and of its result, on every branch: \<open>emits calls m S\<close> says that \<open>m\<close>, from any state,
  only appends to the history, and that what it appends satisfies \<open>S\<close> together with the outcome.
  The specifications compose: \<open>preparation\<close> is the abstract run of the volumes,
  \<open>creation\<close> that of \<open>createContainer\<close>, \<open>started\<close> that of the startup, and
  \<open>main_outcome\<close> reads the exit status off them. Properties of every run, failed ones
  included, are policies of the trace: the locales \<open>volume_policy\<close>, \<open>run_policy\<close> and
  \<open>agent_policy\<close> carry a policy from single calls to the whole program, and are interpreted for
  the use of filesystem tools and for the use of credentials. The converse, that nothing stands in the
  way of a well-formed declaration on a working machine, is \<open>container_gets_started\<close>. The traces
  are tied to a state of the world in \<open>main_host_mounts\<close>: on a host whose commands mount,
  unmount and list as they should (\<open>faithful_host\<close>), the calls of a run account for the mounts it
  leaves behind, and a startup that succeeds leaves those the declaration asks for. Round trips and functional results cover the pure functions: mount table entries, credentials, bindings,
  flags, registries, disk modes, names and seeds.

  \<^bold>\<open>Loops and bounds.\<close> All loops of the code run over finite lists, but one: the rejection
  loop of \<open>math/rand\<close> behind the name of the container. It is a \<open>partial_function\<close> over
  the stream of random values; not to return is the outcome \<open>Panic Diverges\<close>, which runs no
  deferred calls, and \<open>fair\<close> (the stream never stops delivering values the loop accepts) is the
  hypothesis under which it, and the program, is shown to end. Hashes and file modes are words of their
  width; a scanned line has at most the 64 KiB of \<open>bufio\<close>. The parser of JSON recurses on fuel, twice
  the length of the text and one, which \<open>parse_value_fuel\<close> shows to be enough, and refuses a nesting of
  more than 10000, as Go does.

  \<^bold>\<open>Not modelled.\<close> The vendored libraries, which are the parameters above. Contexts: all
  are cancelled only when their function returns, so that \<open>ctx.Err\<close> is nil wherever it is asked.
  Concurrency: the program has none. The Go tests, whose helpers are modelled. The shell script and the
  service file that start the agent, and the packaging.
\<close>

end
